theory Spec2Isabelle
  imports Main "HOL-Library.AList" "HOL-Library.Sublist" "HOL-Library.Char_ord" "HOL-Library.List_Lexorder"
begin

section \<open>Data model\<close>

text \<open>
  A path is the list of its components below the filesystem root, so that
  \<^verbatim>\<open>filepath.Join(p, name)\<close> is \<open>p @ [name]\<close>, \<^verbatim>\<open>filepath.Dir(p)\<close> is \<open>butlast p\<close>
  and \<^verbatim>\<open>filepath.Rel(root, root/rel)\<close> is \<open>drop (length root)\<close>.
  Times are instants in nanoseconds since Go's zero time.
\<close>

type_synonym path = "string list"

datatype ftype = Regular | Directory | Irregular

record node =
  ntype :: ftype
  ncontent :: string
  nmtime :: int
  nperm :: nat

text \<open>\<^verbatim>\<open>os.FileInfo\<close>: what \<^verbatim>\<open>Size()\<close>, \<^verbatim>\<open>ModTime()\<close> and \<^verbatim>\<open>Mode()\<close> return.\<close>

record finfo =
  Size :: int
  ModTime :: int
  Mode :: ftype
  Perm :: nat

definition info_of :: "node \<Rightarrow> finfo" where
  "info_of n = \<lparr>Size = int (length (ncontent n)), ModTime = nmtime n, Mode = ntype n, Perm = nperm n\<rparr>"

datatype errno = ENOENT | ENOTDIR | EISDIR | EEXIST | EACCES | EIO | ENAMETOOLONG | ENOSPC | ENOTEMPTY

text \<open>
  Go error values: the \<^verbatim>\<open>*PathError\<close> and \<^verbatim>\<open>*LinkError\<close> of package os, the wrapping of
  \<^verbatim>\<open>fmt.Errorf("tag: %w", err)\<close>, and the two sentinels of \<^verbatim>\<open>filepath.WalkDir\<close>.
\<close>

datatype error =
    PathError string path errno
  | LinkError string path path errno
  | Wrapped string error
  | SkipDir
  | SkipAll

text \<open>\<^verbatim>\<open>errors.Is(err, os.ErrNotExist)\<close>: unwraps down to the errno, which must be ENOENT.\<close>

fun is_not_exist :: "error \<Rightarrow> bool" where
  "is_not_exist (PathError _ _ e) = (e = ENOENT)"
| "is_not_exist (LinkError _ _ _ e) = (e = ENOENT)"
| "is_not_exist (Wrapped _ e) = is_not_exist e"
| "is_not_exist SkipDir = False"
| "is_not_exist SkipAll = False"

section \<open>Report accumulator (report.go)\<close>

record report =
  Copied :: int
  Overwritten :: int
  Deleted :: int
  Skipped :: int
  Errors :: "error list"

definition empty_report :: report where
  "empty_report = \<lparr>Copied = 0, Overwritten = 0, Deleted = 0, Skipped = 0, Errors = []\<rparr>"

text \<open>\<^verbatim>\<open>func (r *Report) addErr(err error)\<close>; a nil error is \<open>None\<close>.\<close>

definition addErr :: "error option \<Rightarrow> report \<Rightarrow> report" where
  "addErr err r = (case err of None \<Rightarrow> r | Some e \<Rightarrow> r\<lparr>Errors := Errors r @ [e]\<rparr>)"

section \<open>Change detector (sync.go: differ, truncateToSeconds)\<close>

text \<open>\<^verbatim>\<open>t.Truncate(time.Second)\<close> rounds the instant down to a multiple of one second.\<close>

definition truncateToSeconds :: "int \<Rightarrow> int" where
  "truncateToSeconds t = t - t mod 1000000000"

definition differ :: "finfo \<Rightarrow> finfo \<Rightarrow> bool" where
  "differ src dst =
     (if Size src \<noteq> Size dst then True
      else \<not> (truncateToSeconds (ModTime src) = truncateToSeconds (ModTime dst)))"

section \<open>Temporary path of the atomic writer\<close>

text \<open>
  \<^verbatim>\<open>tmp := dstPath + ".tmp~"\<close>: the string concatenation extends the last component of the
  destination path.
\<close>

definition tmp_suffix :: string where
  "tmp_suffix = ''.tmp~''"

fun tmp_path :: "path \<Rightarrow> path" where
  "tmp_path [] = [tmp_suffix]"
| "tmp_path p = butlast p @ [last p @ tmp_suffix]"


section \<open>The filesystem the engine runs on\<close>

text \<open>
  The filesystem is an association list from paths to nodes, read through \<open>map_of\<close>.
  Every call into package os or io is one operation: it takes the next entry of a fault
  script (an injected I/O failure, with a count of how much was done before it), is
  appended to the trace of operations, and otherwise behaves as the filesystem dictates.
  Symbolic and hard links are not modelled; a path longer than \<open>PATH_MAX\<close> bytes is
  refused by every operation, as by the operating system.
\<close>

type_synonym fsmap = "(path \<times> node) list"

type_synonym fault = "(errno \<times> nat) option"

datatype op =
    OpLstat path
  | OpStat path
  | OpReadDir path
  | OpMkdirAll path
  | OpOpen path
  | OpOpenFile path
  | OpCopy path path
  | OpClose path
  | OpChtimes path
  | OpRename path path
  | OpRemove path

text \<open>The lines the engine prints through \<^verbatim>\<open>opt.Logger.Printf\<close>.\<close>

datatype logline =
    LogErr string path error
  | LogErr2 string path path error
  | LogSkipIrregular path
  | LogSkipIdentical path
  | LogCopy path path
  | LogOverwrite path path
  | LogDelete path

record world =
  files :: fsmap
  script :: "fault list"
  trace :: "op list"
  logs :: "logline list"
  now :: int

definition PATH_MAX :: nat where
  "PATH_MAX = 4096"

definition plen :: "path \<Rightarrow> nat" where
  "plen p = sum_list (map (\<lambda>n. Suc (length n)) p)"

definition enter :: "op \<Rightarrow> world \<Rightarrow> fault \<times> world" where
  "enter a w =
     (case script w of
        [] \<Rightarrow> (None, w\<lparr>trace := trace w @ [a]\<rparr>)
      | f # r \<Rightarrow> (f, w\<lparr>script := r, trace := trace w @ [a]\<rparr>))"

definition Printf :: "logline \<Rightarrow> world \<Rightarrow> world" where
  "Printf l w = w\<lparr>logs := logs w @ [l]\<rparr>"

text \<open>Path resolution: every proper non-empty prefix must be an existing directory.\<close>

fun check_dirs :: "fsmap \<Rightarrow> path \<Rightarrow> string list \<Rightarrow> errno option" where
  "check_dirs fs cur [] = None"
| "check_dirs fs cur [n] = None"
| "check_dirs fs cur (n # m # ns) =
     (case map_of fs (cur @ [n]) of
        None \<Rightarrow> Some ENOENT
      | Some d \<Rightarrow> if ntype d \<noteq> Directory then Some ENOTDIR else check_dirs fs (cur @ [n]) (m # ns))"

definition parent_err :: "fsmap \<Rightarrow> path \<Rightarrow> errno option" where
  "parent_err fs p = (if PATH_MAX < plen p then Some ENAMETOOLONG else check_dirs fs [] p)"

definition resolve :: "fsmap \<Rightarrow> path \<Rightarrow> errno + node" where
  "resolve fs p =
     (case parent_err fs p of
        Some e \<Rightarrow> Inl e
      | None \<Rightarrow> (case map_of fs p of None \<Rightarrow> Inl ENOENT | Some n \<Rightarrow> Inr n))"

definition os_Lstat :: "path \<Rightarrow> world \<Rightarrow> (error + finfo) \<times> world" where
  "os_Lstat p w =
     (case enter (OpLstat p) w of
        (Some (e, k), w1) \<Rightarrow> (Inl (PathError ''lstat'' p e), w1)
      | (None, w1) \<Rightarrow>
          (case resolve (files w1) p of
             Inl e \<Rightarrow> (Inl (PathError ''lstat'' p e), w1)
           | Inr n \<Rightarrow> (Inr (info_of n), w1)))"

definition os_Stat :: "path \<Rightarrow> world \<Rightarrow> (error + finfo) \<times> world" where
  "os_Stat p w =
     (case enter (OpStat p) w of
        (Some (e, k), w1) \<Rightarrow> (Inl (PathError ''stat'' p e), w1)
      | (None, w1) \<Rightarrow>
          (case resolve (files w1) p of
             Inl e \<Rightarrow> (Inl (PathError ''stat'' p e), w1)
           | Inr n \<Rightarrow> (Inr (info_of n), w1)))"

text \<open>
  \<^verbatim>\<open>os.MkdirAll\<close>: walks down the chain of prefixes, keeps the directories that exist,
  creates the missing ones and stops at the first prefix that is not a directory. An
  injected failure \<open>(e, k)\<close> stops it after \<open>k\<close> components.
\<close>

fun mkdir_chain :: "int \<Rightarrow> fsmap \<Rightarrow> path \<Rightarrow> string list \<Rightarrow> errno option \<times> fsmap" where
  "mkdir_chain t fs cur [] = (None, fs)"
| "mkdir_chain t fs cur (n # ns) =
     (if PATH_MAX < plen (cur @ [n]) then (Some ENAMETOOLONG, fs)
      else case map_of fs (cur @ [n]) of
        Some d \<Rightarrow> if ntype d = Directory then mkdir_chain t fs (cur @ [n]) ns else (Some ENOTDIR, fs)
      | None \<Rightarrow>
          mkdir_chain t
            (AList.update (cur @ [n]) \<lparr>ntype = Directory, ncontent = [], nmtime = t, nperm = 493\<rparr> fs)
            (cur @ [n]) ns)"

definition os_MkdirAll :: "path \<Rightarrow> world \<Rightarrow> error option \<times> world" where
  "os_MkdirAll p w =
     (case enter (OpMkdirAll p) w of
        (Some (e, k), w1) \<Rightarrow>
          (case mkdir_chain (now w1) (files w1) [] (take k p) of
             (Some e', fs') \<Rightarrow> (Some (PathError ''mkdir'' p e'), w1\<lparr>files := fs'\<rparr>)
           | (None, fs') \<Rightarrow> (Some (PathError ''mkdir'' p e), w1\<lparr>files := fs'\<rparr>))
      | (None, w1) \<Rightarrow>
          (case mkdir_chain (now w1) (files w1) [] p of
             (Some e', fs') \<Rightarrow> (Some (PathError ''mkdir'' p e'), w1\<lparr>files := fs'\<rparr>)
           | (None, fs') \<Rightarrow> (None, w1\<lparr>files := fs'\<rparr>)))"

text \<open>\<^verbatim>\<open>os.Open\<close> for reading; the handle is the path, read when the copy runs.\<close>

definition os_Open :: "path \<Rightarrow> world \<Rightarrow> error option \<times> world" where
  "os_Open p w =
     (case enter (OpOpen p) w of
        (Some (e, k), w1) \<Rightarrow> (Some (PathError ''open'' p e), w1)
      | (None, w1) \<Rightarrow>
          (case resolve (files w1) p of
             Inl e \<Rightarrow> (Some (PathError ''open'' p e), w1)
           | Inr n \<Rightarrow> (None, w1)))"

text \<open>
  \<^verbatim>\<open>os.OpenFile(tmp, O_CREATE|O_WRONLY|O_TRUNC, perm)\<close>: creates an empty regular file, or
  empties the file that is there; a directory cannot be opened for writing.
\<close>

definition os_OpenFile :: "path \<Rightarrow> nat \<Rightarrow> world \<Rightarrow> error option \<times> world" where
  "os_OpenFile p perm w =
     (case enter (OpOpenFile p) w of
        (Some (e, k), w1) \<Rightarrow> (Some (PathError ''open'' p e), w1)
      | (None, w1) \<Rightarrow>
          (case parent_err (files w1) p of
             Some e \<Rightarrow> (Some (PathError ''open'' p e), w1)
           | None \<Rightarrow>
               (case map_of (files w1) p of
                  None \<Rightarrow>
                    (None, w1\<lparr>files := AList.update p
                       \<lparr>ntype = Regular, ncontent = [], nmtime = now w1, nperm = perm\<rparr> (files w1)\<rparr>)
                | Some n \<Rightarrow>
                    if ntype n = Directory then (Some (PathError ''open'' p EISDIR), w1)
                    else (None, w1\<lparr>files := AList.update p
                            (n\<lparr>ncontent := [], nmtime := now w1\<rparr>) (files w1)\<rparr>))))"

text \<open>
  \<^verbatim>\<open>io.Copy(df, sf)\<close>: streams the bytes of the open source into the open destination.
  An injected failure \<open>(e, k)\<close> leaves the first \<open>k\<close> bytes written; reading a
  directory fails.
\<close>

definition write_bytes :: "path \<Rightarrow> string \<Rightarrow> int \<Rightarrow> fsmap \<Rightarrow> fsmap" where
  "write_bytes p bs t fs =
     (case map_of fs p of
        None \<Rightarrow> fs
      | Some n \<Rightarrow> AList.update p (n\<lparr>ncontent := bs, nmtime := t\<rparr>) fs)"

definition io_Copy :: "path \<Rightarrow> path \<Rightarrow> world \<Rightarrow> error option \<times> world" where
  "io_Copy df sf w =
     (case enter (OpCopy df sf) w of
        (Some (e, k), w1) \<Rightarrow>
          (case map_of (files w1) sf of
             None \<Rightarrow> (Some (PathError ''read'' sf e), w1)
           | Some n \<Rightarrow>
               (Some (PathError ''write'' df e),
                w1\<lparr>files := write_bytes df (take k (ncontent n)) (now w1) (files w1)\<rparr>))
      | (None, w1) \<Rightarrow>
          (case map_of (files w1) sf of
             None \<Rightarrow> (Some (PathError ''read'' sf ENOENT), w1)
           | Some n \<Rightarrow>
               if ntype n = Directory then (Some (PathError ''read'' sf EISDIR), w1)
               else (None, w1\<lparr>files := write_bytes df (ncontent n) (now w1) (files w1)\<rparr>)))"

definition file_Close :: "path \<Rightarrow> world \<Rightarrow> error option \<times> world" where
  "file_Close p w =
     (case enter (OpClose p) w of
        (Some (e, k), w1) \<Rightarrow> (Some (PathError ''close'' p e), w1)
      | (None, w1) \<Rightarrow> (None, w1))"

definition os_Chtimes :: "path \<Rightarrow> int \<Rightarrow> world \<Rightarrow> error option \<times> world" where
  "os_Chtimes p mt w =
     (case enter (OpChtimes p) w of
        (Some (e, k), w1) \<Rightarrow> (Some (PathError ''chtimes'' p e), w1)
      | (None, w1) \<Rightarrow>
          (case resolve (files w1) p of
             Inl e \<Rightarrow> (Some (PathError ''chtimes'' p e), w1)
           | Inr n \<Rightarrow> (None, w1\<lparr>files := AList.update p (n\<lparr>nmtime := mt\<rparr>) (files w1)\<rparr>)))"

text \<open>
  \<^verbatim>\<open>os.Rename(old, new)\<close> of a file: replaces whatever non-directory is at the new
  path in one step, and fails without any change otherwise.
\<close>

definition os_Rename :: "path \<Rightarrow> path \<Rightarrow> world \<Rightarrow> error option \<times> world" where
  "os_Rename old new w =
     (case enter (OpRename old new) w of
        (Some (e, k), w1) \<Rightarrow> (Some (LinkError ''rename'' old new e), w1)
      | (None, w1) \<Rightarrow>
          (case resolve (files w1) old of
             Inl e \<Rightarrow> (Some (LinkError ''rename'' old new e), w1)
           | Inr n \<Rightarrow>
               (case parent_err (files w1) new of
                  Some e \<Rightarrow> (Some (LinkError ''rename'' old new e), w1)
                | None \<Rightarrow>
                    if ntype n = Directory then (Some (LinkError ''rename'' old new EISDIR), w1)
                    else
                      (case map_of (files w1) new of
                         Some m \<Rightarrow>
                           if ntype m = Directory then (Some (LinkError ''rename'' old new EISDIR), w1)
                           else (None, w1\<lparr>files := AList.update new n (AList.delete old (files w1))\<rparr>)
                       | None \<Rightarrow>
                           (None, w1\<lparr>files := AList.update new n (AList.delete old (files w1))\<rparr>)))))"

text \<open>The names in a directory, as \<^verbatim>\<open>os.ReadDir\<close> returns them: sorted by filename.\<close>

definition children :: "fsmap \<Rightarrow> path \<Rightarrow> string list" where
  "children fs p =
     sort (remdups (List.map_filter
       (\<lambda>(q, n). if q \<noteq> [] \<and> butlast q = p then Some (last q) else None) fs))"

definition os_Remove :: "path \<Rightarrow> world \<Rightarrow> error option \<times> world" where
  "os_Remove p w =
     (case enter (OpRemove p) w of
        (Some (e, k), w1) \<Rightarrow> (Some (PathError ''remove'' p e), w1)
      | (None, w1) \<Rightarrow>
          (case resolve (files w1) p of
             Inl e \<Rightarrow> (Some (PathError ''remove'' p e), w1)
           | Inr n \<Rightarrow>
               if ntype n = Directory \<and> children (files w1) p \<noteq> []
               then (Some (PathError ''remove'' p ENOTEMPTY), w1)
               else (None, w1\<lparr>files := AList.delete p (files w1)\<rparr>)))"

section \<open>Atomic file writer (sync.go: copyFile)\<close>

definition copyFile :: "path \<Rightarrow> path \<Rightarrow> finfo \<Rightarrow> world \<Rightarrow> error option \<times> world" where
  "copyFile srcPath dstPath srcInfo w =
     (case os_MkdirAll (butlast dstPath) w of
        (Some err, w1) \<Rightarrow> (Some (Wrapped ''mkdir'' err), w1)
      | (None, w1) \<Rightarrow>
     (case os_Open srcPath w1 of
        (Some err, w2) \<Rightarrow> (Some (Wrapped ''open src'' err), w2)
      | (None, w2) \<Rightarrow>
     (let tmp = tmp_path dstPath in
      case os_OpenFile tmp (Perm srcInfo) w2 of
        (Some err, w3) \<Rightarrow> (Some (Wrapped ''open tmp'' err), snd (file_Close srcPath w3))
      | (None, w3) \<Rightarrow>
     (let (cErr, w4) = io_Copy tmp srcPath w3;
          (cCloseErr, w5) = file_Close tmp w4
      in case cErr of
        Some e \<Rightarrow>
          (Some (Wrapped ''copy'' e), snd (file_Close srcPath (snd (os_Remove tmp w5))))
      | None \<Rightarrow>
     (case cCloseErr of
        Some e \<Rightarrow>
          (Some (Wrapped ''close tmp'' e), snd (file_Close srcPath (snd (os_Remove tmp w5))))
      | None \<Rightarrow>
     (case os_Chtimes tmp (ModTime srcInfo) w5 of
        (Some err, w6) \<Rightarrow>
          (Some (Wrapped ''chtimes'' err), snd (file_Close srcPath (snd (os_Remove tmp w6))))
      | (None, w6) \<Rightarrow>
     (case os_Rename tmp dstPath w6 of
        (Some err, w7) \<Rightarrow>
          (Some (Wrapped ''rename'' err), snd (file_Close srcPath (snd (os_Remove tmp w7))))
      | (None, w7) \<Rightarrow> (None, snd (file_Close srcPath w7)))))))))"


section \<open>Directory traversal (filepath.WalkDir)\<close>

text \<open>
  A directory entry carries its name and the type the directory listing gave; the entry
  of the walk's root carries the result of the \<^verbatim>\<open>Lstat\<close> it was made from, the
  others call \<^verbatim>\<open>Lstat\<close> when \<^verbatim>\<open>Info()\<close> is asked.
\<close>

record dirent =
  dname :: string
  dtype :: ftype
  dinfo :: "finfo option"

definition IsDir :: "dirent \<Rightarrow> bool" where
  "IsDir d = (dtype d = Directory)"

definition Info :: "path \<Rightarrow> dirent \<Rightarrow> world \<Rightarrow> (error + finfo) \<times> world" where
  "Info p d w = (case dinfo d of Some i \<Rightarrow> (Inr i, w) | None \<Rightarrow> os_Lstat p w)"

definition dir_entries :: "fsmap \<Rightarrow> path \<Rightarrow> dirent list" where
  "dir_entries fs p =
     (case resolve fs p of
        Inl e \<Rightarrow> []
      | Inr n \<Rightarrow>
          if ntype n \<noteq> Directory then []
          else map (\<lambda>c. \<lparr>dname = c,
                          dtype = (case map_of fs (p @ [c]) of None \<Rightarrow> Irregular | Some m \<Rightarrow> ntype m),
                          dinfo = None\<rparr>) (children fs p))"

text \<open>
  \<^verbatim>\<open>os.ReadDir\<close>: the entries sorted by name; on a failure, the entries read before it
  together with the error.
\<close>

definition os_ReadDir :: "path \<Rightarrow> world \<Rightarrow> dirent list \<times> error option \<times> world" where
  "os_ReadDir p w =
     (case enter (OpReadDir p) w of
        (Some (e, k), w1) \<Rightarrow> (take k (dir_entries (files w1) p), Some (PathError ''readdir'' p e), w1)
      | (None, w1) \<Rightarrow>
          (case resolve (files w1) p of
             Inl e \<Rightarrow> ([], Some (PathError ''open'' p e), w1)
           | Inr n \<Rightarrow>
               if ntype n \<noteq> Directory then ([], Some (PathError ''readdir'' p ENOTDIR), w1)
               else (dir_entries (files w1) p, None, w1)))"

text \<open>
  What a call of the walk function does: it returns an error or nil, or it panics (a
  method call on a nil \<^verbatim>\<open>DirEntry\<close>).
\<close>

datatype ret = Return "error option" | Panic

type_synonym st = "report \<times> world"

type_synonym walkfn = "path \<Rightarrow> dirent option \<Rightarrow> error option \<Rightarrow> st \<Rightarrow> ret \<times> st"

text \<open>The loop over the entries of one directory; \<^verbatim>\<open>SkipDir\<close> breaks out of it.\<close>

fun walk_loop :: "(dirent \<Rightarrow> st \<Rightarrow> ret \<times> st) \<Rightarrow> dirent list \<Rightarrow> st \<Rightarrow> ret \<times> st" where
  "walk_loop f [] s = (Return None, s)"
| "walk_loop f (d1 # ds) s =
     (case f d1 s of
        (Panic, s1) \<Rightarrow> (Panic, s1)
      | (Return (Some e), s1) \<Rightarrow> if e = SkipDir then (Return None, s1) else (Return (Some e), s1)
      | (Return None, s1) \<Rightarrow> walk_loop f ds s1)"

lemma walk_loop_cong [fundef_cong]:
  "ds = ds' \<Longrightarrow> s = s' \<Longrightarrow> (\<And>d t. d \<in> set ds' \<Longrightarrow> f d t = g d t) \<Longrightarrow>
   walk_loop f ds s = walk_loop g ds' s'"
proof -
  assume a: "ds = ds'" "s = s'" and b: "\<And>d t. d \<in> set ds' \<Longrightarrow> f d t = g d t"
  have "(\<And>d t. d \<in> set ds' \<Longrightarrow> f d t = g d t) \<Longrightarrow> walk_loop f ds' s' = walk_loop g ds' s'"
    by (induction ds' arbitrary: s') (auto split: prod.splits ret.splits option.splits)
  with a b show ?thesis by simp
qed

lemma dir_entries_plen: "d \<in> set (dir_entries fs p) \<Longrightarrow> plen p \<le> PATH_MAX"
  by (auto simp: dir_entries_def resolve_def parent_err_def split: sum.splits option.splits if_splits)

lemma os_ReadDir_plen: "os_ReadDir p w = (ds, e, w') \<Longrightarrow> d \<in> set ds \<Longrightarrow> plen p \<le> PATH_MAX"
  by (auto simp: os_ReadDir_def split: prod.splits option.splits sum.splits if_splits
      dest: dir_entries_plen in_set_takeD)

text \<open>
  \<^verbatim>\<open>walkDir\<close> of package filepath. It ends because a directory whose path is longer than
  \<open>PATH_MAX\<close> cannot be read, and the path grows with every level.
\<close>

function walkDir :: "walkfn \<Rightarrow> path \<Rightarrow> dirent \<Rightarrow> st \<Rightarrow> ret \<times> st" where
  "walkDir fn path d s =
     (case fn path (Some d) None s of
        (Panic, s1) \<Rightarrow> (Panic, s1)
      | (Return (Some err), s1) \<Rightarrow>
          if err = SkipDir \<and> IsDir d then (Return None, s1) else (Return (Some err), s1)
      | (Return None, s1) \<Rightarrow>
          if \<not> IsDir d then (Return None, s1)
          else
            (case os_ReadDir path (snd s1) of
               (dirs, rerr, w2) \<Rightarrow>
                 (case rerr of
                    Some e \<Rightarrow>
                      (case fn path (Some d) (Some e) (fst s1, w2) of
                         (Panic, s3) \<Rightarrow> (Panic, s3)
                       | (Return (Some err2), s3) \<Rightarrow>
                           if err2 = SkipDir \<and> IsDir d then (Return None, s3)
                           else (Return (Some err2), s3)
                       | (Return None, s3) \<Rightarrow>
                           walk_loop (\<lambda>d1. walkDir fn (path @ [dname d1]) d1) dirs s3)
                  | None \<Rightarrow>
                      walk_loop (\<lambda>d1. walkDir fn (path @ [dname d1]) d1) dirs (fst s1, w2))))"
  by pat_completeness auto
termination
  apply (relation "measure (\<lambda>(fn, path, d, s). Suc PATH_MAX - plen path)")
    apply simp
   apply (auto simp: plen_def dest!: os_ReadDir_plen[OF sym])
  done

definition WalkDir :: "path \<Rightarrow> walkfn \<Rightarrow> st \<Rightarrow> ret \<times> st" where
  "WalkDir root fn s =
     (case (case os_Lstat root (snd s) of
              (Inl err, w1) \<Rightarrow> fn root None (Some err) (fst s, w1)
            | (Inr info, w1) \<Rightarrow>
                walkDir fn root
                  \<lparr>dname = (if root = [] then [] else last root), dtype = Mode info, dinfo = Some info\<rparr>
                  (fst s, w1)) of
        (Return (Some err), s') \<Rightarrow>
          if err = SkipDir \<or> err = SkipAll then (Return None, s') else (Return (Some err), s')
      | r \<Rightarrow> r)"

section \<open>Tree walker / reconciler (sync.go: Sync)\<close>

record Options =
  Source :: path
  Target :: path
  DeleteMissing :: bool

text \<open>
  \<^verbatim>\<open>filepath.Rel(base, targ)\<close>: drops the common prefix and climbs out of what is left of
  the base. The walk only passes paths below its root, where this drops the root.
\<close>

fun Rel :: "path \<Rightarrow> path \<Rightarrow> path" where
  "Rel (b # bs) (t # ts) = (if b = t then Rel bs ts else map (\<lambda>_. ''..'') (b # bs) @ (t # ts))"
| "Rel bs ts = map (\<lambda>_. ''..'') bs @ ts"

text \<open>The function literal passed to the first \<^verbatim>\<open>filepath.WalkDir\<close> (forward pass).\<close>

definition forward :: "Options \<Rightarrow> walkfn" where
  "forward opt path d err s =
     (case s of (rep, w) \<Rightarrow>
      case err of
        Some e \<Rightarrow> (Return None, (addErr (Some e) rep, Printf (LogErr ''odczyt'' path e) w))
      | None \<Rightarrow>
          if path = Source opt then (Return None, (rep, w))
          else
            (let rel = Rel (Source opt) path;
                 targetPath = Target opt @ rel
             in case d of
               None \<Rightarrow> (Panic, (rep, w))
             | Some de \<Rightarrow>
                 if IsDir de then
                   (case os_MkdirAll targetPath w of
                      (Some e, w1) \<Rightarrow>
                        (Return None, (addErr (Some e) rep, Printf (LogErr ''mkdir'' targetPath e) w1))
                    | (None, w1) \<Rightarrow> (Return None, (rep, w1)))
                 else
                   (case Info path de w of
                      (Inl e, w1) \<Rightarrow>
                        (Return None, (addErr (Some e) rep, Printf (LogErr ''info'' path e) w1))
                    | (Inr info, w1) \<Rightarrow>
                        if Mode info \<noteq> Regular then
                          (Return None, (rep\<lparr>Skipped := Skipped rep + 1\<rparr>, Printf (LogSkipIrregular path) w1))
                        else
                          (case os_Stat targetPath w1 of
                             (Inl e, w2) \<Rightarrow>
                               if is_not_exist e then
                                 (case copyFile path targetPath info w2 of
                                    (Some ce, w3) \<Rightarrow>
                                      (Return None,
                                       (addErr (Some ce) rep,
                                        Printf (LogErr2 ''copy NEW'' path targetPath ce) w3))
                                  | (None, w3) \<Rightarrow>
                                      (Return None,
                                       (rep\<lparr>Copied := Copied rep + 1\<rparr>,
                                        Printf (LogCopy path targetPath) w3)))
                               else
                                 (Return None,
                                  (addErr (Some e) rep, Printf (LogErr ''stat'' targetPath e) w2))
                           | (Inr tst, w2) \<Rightarrow>
                               if differ info tst then
                                 (case copyFile path targetPath info w2 of
                                    (Some ce, w3) \<Rightarrow>
                                      (Return None,
                                       (addErr (Some ce) rep,
                                        Printf (LogErr2 ''overwrite'' path targetPath ce) w3))
                                  | (None, w3) \<Rightarrow>
                                      (Return None,
                                       (rep\<lparr>Overwritten := Overwritten rep + 1\<rparr>,
                                        Printf (LogOverwrite path targetPath) w3)))
                               else
                                 (Return None,
                                  (rep\<lparr>Skipped := Skipped rep + 1\<rparr>, Printf (LogSkipIdentical rel) w2))))))"

text \<open>The function literal passed to the second \<^verbatim>\<open>filepath.WalkDir\<close> (delete pass).\<close>

definition delete_pass :: "Options \<Rightarrow> walkfn" where
  "delete_pass opt path d err s =
     (case s of (rep, w) \<Rightarrow>
      case err of
        Some e \<Rightarrow> (Return None, (addErr (Some e) rep, Printf (LogErr ''odczyt'' path e) w))
      | None \<Rightarrow>
          if path = Target opt then (Return None, (rep, w))
          else
            (let rel = Rel (Target opt) path;
                 srcPath = Source opt @ rel
             in case d of
               None \<Rightarrow> (Panic, (rep, w))
             | Some de \<Rightarrow>
                 if IsDir de then (Return None, (rep, w))
                 else
                   (case os_Stat srcPath w of
                      (Inl e, w1) \<Rightarrow>
                        if is_not_exist e then
                          (case os_Remove path w1 of
                             (Some rmErr, w2) \<Rightarrow>
                               (Return None,
                                (addErr (Some rmErr) rep, Printf (LogErr ''delete'' path rmErr) w2))
                           | (None, w2) \<Rightarrow>
                               (Return None,
                                (rep\<lparr>Deleted := Deleted rep + 1\<rparr>, Printf (LogDelete path) w2)))
                        else
                          (Return None, (addErr (Some e) rep, Printf (LogErr ''stat'' srcPath e) w1))
                    | (Inr i, w1) \<Rightarrow> (Return None, (rep, w1)))))"

text \<open>
  \<^verbatim>\<open>func Sync(opt Options) *Report\<close>: the report it returns, or \<open>None\<close> when it panics,
  and the world it leaves.
\<close>

definition Sync :: "Options \<Rightarrow> world \<Rightarrow> report option \<times> world" where
  "Sync opt w =
     (case WalkDir (Source opt) (forward opt) (empty_report, w) of
        (Panic, (rep1, w1)) \<Rightarrow> (None, w1)
      | (Return err, (rep1, w1)) \<Rightarrow>
          (let (rep2, w2) =
                 (case err of
                    Some e \<Rightarrow> (addErr (Some e) rep1, Printf (LogErr ''walk'' (Source opt) e) w1)
                  | None \<Rightarrow> (rep1, w1))
           in if DeleteMissing opt then
                (case WalkDir (Target opt) (delete_pass opt) (rep2, w2) of
                   (Panic, (rep3, w3)) \<Rightarrow> (None, w3)
                 | (Return err', (rep3, w3)) \<Rightarrow>
                     (case err' of
                        Some e \<Rightarrow>
                          (Some (addErr (Some e) rep3), Printf (LogErr ''walk target'' (Target opt) e) w3)
                      | None \<Rightarrow> (Some rep3, w3)))
              else (Some rep2, w2)))"


section \<open>Vocabulary of the properties\<close>

text \<open>The report only grows: no counter goes down and recorded errors stay in place.\<close>

definition report_le :: "report \<Rightarrow> report \<Rightarrow> bool" where
  "report_le r r' \<longleftrightarrow>
     Copied r \<le> Copied r' \<and> Overwritten r \<le> Overwritten r' \<and> Deleted r \<le> Deleted r' \<and>
     Skipped r \<le> Skipped r' \<and> prefix (Errors r) (Errors r')"





text \<open>The kinds of log lines, and a report that accounts for a list of log lines.\<close>

fun is_copy_line :: "logline \<Rightarrow> bool" where
  "is_copy_line (LogCopy _ _) = True"
| "is_copy_line _ = False"

fun is_overwrite_line :: "logline \<Rightarrow> bool" where
  "is_overwrite_line (LogOverwrite _ _) = True"
| "is_overwrite_line _ = False"

fun is_skip_line :: "logline \<Rightarrow> bool" where
  "is_skip_line (LogSkipIrregular _) = True"
| "is_skip_line (LogSkipIdentical _) = True"
| "is_skip_line _ = False"

fun is_delete_line :: "logline \<Rightarrow> bool" where
  "is_delete_line (LogDelete _) = True"
| "is_delete_line _ = False"

fun is_err_line :: "logline \<Rightarrow> bool" where
  "is_err_line (LogErr _ _ _) = True"
| "is_err_line (LogErr2 _ _ _ _) = True"
| "is_err_line _ = False"

definition accounts :: "report \<Rightarrow> logline list \<Rightarrow> bool" where
  "accounts r ls \<longleftrightarrow>
     Copied r = int (length (filter is_copy_line ls)) \<and>
     Overwritten r = int (length (filter is_overwrite_line ls)) \<and>
     Skipped r = int (length (filter is_skip_line ls)) \<and>
     Deleted r = int (length (filter is_delete_line ls)) \<and>
     length (Errors r) = length (filter is_err_line ls)"


text \<open>
  The paths an operation writes to; a list of operations all of whose writes lie under
  a root; and a step of the world that is confined to a root: what it adds to the trace
  writes under the root only, and the only entries it changes outside the root are missing
  ancestors of the root, which become directories.
\<close>

fun writes :: "op \<Rightarrow> path list" where
  "writes (OpMkdirAll p) = [p]"
| "writes (OpOpenFile p) = [p]"
| "writes (OpCopy df sf) = [df]"
| "writes (OpChtimes p) = [p]"
| "writes (OpRename old new) = [old, new]"
| "writes (OpRemove p) = [p]"
| "writes _ = []"

definition under :: "path \<Rightarrow> op list \<Rightarrow> bool" where
  "under T ops \<longleftrightarrow> (\<forall>a \<in> set ops. \<forall>q \<in> set (writes a). prefix T q)"

definition is_dir_at :: "fsmap \<Rightarrow> path \<Rightarrow> bool" where
  "is_dir_at fs q \<longleftrightarrow> (case map_of fs q of None \<Rightarrow> False | Some n \<Rightarrow> ntype n = Directory)"

definition confined :: "path \<Rightarrow> world \<Rightarrow> world \<Rightarrow> bool" where
  "confined T w w' \<longleftrightarrow>
     (\<exists>new. trace w' = trace w @ new \<and> under T new) \<and>
     (\<forall>q. map_of (files w') q \<noteq> map_of (files w) q \<longrightarrow>
          prefix T q \<or> (strict_prefix q T \<and> map_of (files w) q = None \<and> is_dir_at (files w') q))"

section \<open>Example filesystems\<close>

definition dir_node :: node where
  "dir_node = \<lparr>ntype = Directory, ncontent = [], nmtime = 0, nperm = 493\<rparr>"

definition file_node :: "string \<Rightarrow> int \<Rightarrow> node" where
  "file_node bs t = \<lparr>ntype = Regular, ncontent = bs, nmtime = t, nperm = 420\<rparr>"

definition mk_world :: "fsmap \<Rightarrow> fault list \<Rightarrow> world" where
  "mk_world fs sc = \<lparr>files = fs, script = sc, trace = [], logs = [], now = 100\<rparr>"

definition ex_opts :: "bool \<Rightarrow> Options" where
  "ex_opts del = \<lparr>Source = [''s''], Target = [''t''], DeleteMissing = del\<rparr>"

text \<open>Source file \<open>s/a\<close> with new content, target file \<open>t/a\<close> with old content.\<close>

definition ex_overwrite :: fsmap where
  "ex_overwrite = [([''s''], dir_node), ([''t''], dir_node),
     ([''s'', ''a''], file_node ''new'' 5000000000), ([''t'', ''a''], file_node ''old'' 1000000000)]"

definition ex_info :: finfo where
  "ex_info = info_of (file_node ''new'' 5000000000)"

text \<open>Source file \<open>s/a\<close>; the target holds only a file named \<open>a.tmp~\<close>.\<close>

definition ex_clobber :: fsmap where
  "ex_clobber = [([''s''], dir_node), ([''t''], dir_node),
     ([''s'', ''a''], file_node ''new'' 5000000000), ([''t'', ''a.tmp~''], file_node ''keep'' 1000000000)]"

text \<open>Two source files, \<open>s/a\<close> and \<open>s/a.tmp~\<close>, and an empty target.\<close>

definition ex_pair :: fsmap where
  "ex_pair = [([''s''], dir_node), ([''t''], dir_node),
     ([''s'', ''a''], file_node ''new'' 5000000000), ([''s'', ''a.tmp~''], file_node ''other'' 1000000000)]"

text \<open>The target \<open>t\<close> holds the source \<open>t/s\<close>; the source holds \<open>x\<close> and \<open>s/x\<close>.\<close>

definition ex_nested :: fsmap where
  "ex_nested = [([''t''], dir_node), ([''t'', ''s''], dir_node), ([''t'', ''s'', ''s''], dir_node),
     ([''t'', ''s'', ''s'', ''x''], file_node ''inner'' 5000000000),
     ([''t'', ''s'', ''x''], file_node ''outer!'' 1000000000)]"

definition ex_nested_opts :: Options where
  "ex_nested_opts = \<lparr>Source = [''t'', ''s''], Target = [''t''], DeleteMissing = False\<rparr>"

section \<open>Effects of the operations\<close>

lemma enter_files [simp]: "files (snd (enter a w)) = files w"
  and enter_trace [simp]: "trace (snd (enter a w)) = trace w @ [a]"
  and enter_logs [simp]: "logs (snd (enter a w)) = logs w"
  and enter_now [simp]: "now (snd (enter a w)) = now w"
  by (auto simp: enter_def split: list.splits)

lemma enter_eqD: "enter a w = (f, w1) \<Longrightarrow> files w1 = files w \<and> trace w1 = trace w @ [a] \<and> logs w1 = logs w \<and> now w1 = now w"
  by (auto simp: enter_def split: list.splits)

lemma mkdir_chain_frame:
  "mkdir_chain t fs cur ns = (r, fs') \<Longrightarrow> \<not> (strict_prefix cur p \<and> prefix p (cur @ ns)) \<Longrightarrow> map_of fs' p = map_of fs p"
proof (induction t fs cur ns arbitrary: r fs' rule: mkdir_chain.induct)
  case (1 t fs cur)
  then show ?case by simp
next
  case (2 t fs cur n ns)
  have np: "\<not> (strict_prefix (cur @ [n]) p \<and> prefix p ((cur @ [n]) @ ns))"
    using 2(4) by (auto simp: strict_prefix_def dest: append_prefixD)
  have ne: "p \<noteq> cur @ [n]" using 2(4) by (auto simp: strict_prefix_def)
  show ?case
  proof (cases "PATH_MAX < plen (cur @ [n])")
    case True
    with 2(3) show ?thesis by simp
  next
    case False
    show ?thesis
    proof (cases "map_of fs (cur @ [n])")
      case None
      with False 2(3) 2(1)[OF False None _ np] ne show ?thesis
        by (simp add: update_conv')
    next
      case (Some d)
      with False 2(3) 2(2)[OF False Some _ _ np] show ?thesis
        by (auto split: if_splits)
    qed
  qed
qed

lemma os_MkdirAll_frame:
  assumes "os_MkdirAll q w = (r, w')" and "\<not> prefix p q \<or> p = []"
  shows "map_of (files w') p = map_of (files w) p"
proof -
  have *: "\<not> (strict_prefix [] p \<and> prefix p ([] @ take k q))" for k
    using assms(2) by (auto dest: prefix_order.trans[OF _ take_is_prefix])
  show ?thesis using assms(1) mkdir_chain_frame[OF _ *]
    by (auto simp: os_MkdirAll_def split: prod.splits option.splits dest!: enter_eqD)
       (metis append_Nil mkdir_chain_frame assms(2) prefix_order.dual_order.strict_implies_order strict_prefix_def)+
qed


lemma os_MkdirAll_D:
  "os_MkdirAll q w = (r, w') \<Longrightarrow>
   (\<forall>p. \<not> prefix p q \<or> p = [] \<longrightarrow> map_of (files w') p = map_of (files w) p) \<and>
   trace w' = trace w @ [OpMkdirAll q] \<and> logs w' = logs w \<and> now w' = now w"
  using os_MkdirAll_frame[of q w r w']
  by (auto simp: os_MkdirAll_def split: prod.splits option.splits dest!: enter_eqD)

lemma os_Open_D:
  "os_Open p w = (r, w') \<Longrightarrow>
   files w' = files w \<and> trace w' = trace w @ [OpOpen p] \<and> logs w' = logs w \<and> now w' = now w"
  by (auto simp: os_Open_def split: prod.splits option.splits sum.splits dest!: enter_eqD)

lemma file_Close_D:
  "file_Close p w = (r, w') \<Longrightarrow>
   files w' = files w \<and> trace w' = trace w @ [OpClose p] \<and> logs w' = logs w \<and> now w' = now w"
  by (auto simp: file_Close_def split: prod.splits option.splits dest!: enter_eqD)

lemma file_Close_snd [simp]:
  "files (snd (file_Close p w)) = files w" "trace (snd (file_Close p w)) = trace w @ [OpClose p]"
  "logs (snd (file_Close p w)) = logs w" "now (snd (file_Close p w)) = now w"
  using file_Close_D[of p w "fst (file_Close p w)" "snd (file_Close p w)"] by auto

lemma os_OpenFile_D:
  "os_OpenFile p perm w = (r, w') \<Longrightarrow>
   (\<forall>q. q \<noteq> p \<longrightarrow> map_of (files w') q = map_of (files w) q) \<and>
   trace w' = trace w @ [OpOpenFile p] \<and> logs w' = logs w \<and> now w' = now w"
  by (auto simp: os_OpenFile_def update_conv' split: prod.splits option.splits if_splits dest!: enter_eqD)

lemma io_Copy_D:
  "io_Copy df sf w = (r, w') \<Longrightarrow>
   (\<forall>q. q \<noteq> df \<longrightarrow> map_of (files w') q = map_of (files w) q) \<and>
   trace w' = trace w @ [OpCopy df sf] \<and> logs w' = logs w \<and> now w' = now w"
  by (auto simp: io_Copy_def write_bytes_def update_conv' split: prod.splits option.splits if_splits dest!: enter_eqD)

lemma os_Chtimes_D:
  "os_Chtimes p mt w = (r, w') \<Longrightarrow>
   (\<forall>q. q \<noteq> p \<longrightarrow> map_of (files w') q = map_of (files w) q) \<and>
   trace w' = trace w @ [OpChtimes p] \<and> logs w' = logs w \<and> now w' = now w"
  by (auto simp: os_Chtimes_def update_conv' split: prod.splits option.splits sum.splits if_splits dest!: enter_eqD)

lemma os_Rename_D:
  "os_Rename old new w = (r, w') \<Longrightarrow>
   (\<forall>q. q \<noteq> old \<and> q \<noteq> new \<longrightarrow> map_of (files w') q = map_of (files w) q) \<and>
   (r \<noteq> None \<longrightarrow> files w' = files w) \<and>
   trace w' = trace w @ [OpRename old new] \<and> logs w' = logs w \<and> now w' = now w"
  by (auto simp: os_Rename_def update_conv' delete_conv' split: prod.splits option.splits sum.splits if_splits dest!: enter_eqD)

lemma os_Remove_D:
  "os_Remove p w = (r, w') \<Longrightarrow>
   (\<forall>q. q \<noteq> p \<longrightarrow> map_of (files w') q = map_of (files w) q) \<and>
   (r \<noteq> None \<longrightarrow> files w' = files w) \<and>
   trace w' = trace w @ [OpRemove p] \<and> logs w' = logs w \<and> now w' = now w"
  by (auto simp: os_Remove_def delete_conv' split: prod.splits option.splits sum.splits if_splits dest!: enter_eqD)

lemma os_Remove_snd:
  "q \<noteq> p \<Longrightarrow> map_of (files (snd (os_Remove p w))) q = map_of (files w) q"
  "trace (snd (os_Remove p w)) = trace w @ [OpRemove p]"
  "logs (snd (os_Remove p w)) = logs w" "now (snd (os_Remove p w)) = now w"
  using os_Remove_D[of p w "fst (os_Remove p w)" "snd (os_Remove p w)"] by auto

lemma tmp_path_snoc: "p \<noteq> [] \<Longrightarrow> tmp_path p = butlast p @ [last p @ tmp_suffix]"
  by (cases p) simp_all

lemma tmp_path_neq: "tmp_path p \<noteq> p"
proof (cases "p = []")
  case True
  then show ?thesis by simp
next
  case False
  have "butlast p @ [last p @ tmp_suffix] \<noteq> butlast p @ [last p]"
    by (simp add: tmp_suffix_def)
  with False show ?thesis by (simp add: tmp_path_snoc)
qed

lemma not_prefix_butlast: "p \<noteq> [] \<Longrightarrow> \<not> prefix p (butlast p)"
  by (metis diff_Suc_less length_butlast length_greater_0_conv not_less prefix_length_le One_nat_def)

section \<open>Invariants of the walk\<close>

declare walkDir.simps [simp del]

lemma walk_loop_inv:
  "(\<And>d s r s'. d \<in> set ds \<Longrightarrow> I s \<Longrightarrow> f d s = (r, s') \<Longrightarrow> I s') \<Longrightarrow>
   I s \<Longrightarrow> walk_loop f ds s = (r, s') \<Longrightarrow> I s'"
proof (induction ds arbitrary: s)
  case Nil
  then show ?case by simp
next
  case (Cons d ds)
  obtain r1 s1 where f: "f d s = (r1, s1)" by (cases "f d s")
  have I1: "I s1" using Cons.prems(1)[OF _ Cons.prems(2) f] by simp
  show ?case
  proof (cases "r1 = Return None")
    case True
    with f Cons.prems(3) have "walk_loop f ds s1 = (r, s')" by simp
    with Cons.IH[of s1] I1 Cons.prems(1) show ?thesis by (metis list.set_intros(2))
  next
    case False
    with f Cons.prems(3) have "s' = s1"
      by (auto split: ret.splits option.splits if_splits)
    with I1 show ?thesis by simp
  qed
qed

lemma walkDir_inv_aux:
  "\<forall>p d e s r s'. prefix root p \<and> I s \<and> fn p d e s = (r, s') \<longrightarrow> I s' \<Longrightarrow>
   \<forall>p rep w ds e w'. prefix root p \<and> I (rep, w) \<and> os_ReadDir p w = (ds, e, w') \<longrightarrow> I (rep, w') \<Longrightarrow>
   prefix root path \<Longrightarrow> I s \<Longrightarrow> walkDir fn path d s = (r, s') \<Longrightarrow> I s'"
proof (induction fn path d s arbitrary: r s' rule: walkDir.induct)
  case (1 fn path d s)
  note IHn = "1.IH"(1) and IHs = "1.IH"(2)
  note A = "1.prems"(1) and B = "1.prems"(2)
  note pre = "1.prems"(3) and Is = "1.prems"(4) and eq = "1.prems"(5)
  have fnI: "prefix root p \<Longrightarrow> I s \<Longrightarrow> fn p d e s = (r, s') \<Longrightarrow> I s'" for p d e s r s'
    using A by blast
  have rdI: "prefix root p \<Longrightarrow> I (rep, w) \<Longrightarrow> os_ReadDir p w = (ds, e, w') \<Longrightarrow> I (rep, w')"
    for p rep w ds e w'
    using B by blast
  have pre': "prefix root (path @ [n])" for n using pre by (rule prefix_prefix)
  obtain r1 s1 where f1: "fn path (Some d) None s = (r1, s1)"
    by (cases "fn path (Some d) None s")
  have I1: "I s1" using fnI[OF pre Is f1] .
  show ?case
  proof (cases "r1 = Return None \<and> IsDir d")
    case False
    then have "s' = s1" using eq f1
      by (auto simp: walkDir.simps[of fn path d s] split: ret.splits option.splits if_splits)
    then show ?thesis using I1 by simp
  next
    case True
    then have r1: "r1 = Return None" and dir: "\<not> \<not> IsDir d" by simp_all
    obtain dirs rerr w2 where rd: "os_ReadDir path (snd s1) = (dirs, rerr, w2)"
      by (cases "os_ReadDir path (snd s1)")
    have I2: "I (fst s1, w2)" using rdI[OF pre _ rd, of "fst s1"] I1 by simp
    show ?thesis
    proof (cases rerr)
      case None
      have step: "d1 \<in> set dirs \<Longrightarrow> I t \<Longrightarrow> walkDir fn (path @ [dname d1]) d1 t = (r', t') \<Longrightarrow> I t'"
        for d1 t r' t'
        using IHn[OF f1[symmetric] r1 refl dir rd[symmetric] refl None _ A B pre']
        by blast
      have "walk_loop (\<lambda>d1. walkDir fn (path @ [dname d1]) d1) dirs (fst s1, w2) = (r, s')"
        using eq f1 r1 True rd None by (simp add: walkDir.simps[of fn path d s])
      from walk_loop_inv[where I = I, OF _ I2 this] step show ?thesis by blast
    next
      case (Some e)
      obtain r3 s3 where f3: "fn path (Some d) (Some e) (fst s1, w2) = (r3, s3)"
        by (cases "fn path (Some d) (Some e) (fst s1, w2)")
      have I3: "I s3" using fnI[OF pre I2 f3] .
      show ?thesis
      proof (cases "r3 = Return None")
        case False
        then have "s' = s3" using eq f1 r1 True rd Some f3
          by (auto simp: walkDir.simps[of fn path d s] split: ret.splits option.splits if_splits)
        then show ?thesis using I3 by simp
      next
        case r3: True
        have step: "d1 \<in> set dirs \<Longrightarrow> I t \<Longrightarrow> walkDir fn (path @ [dname d1]) d1 t = (r', t') \<Longrightarrow> I t'"
          for d1 t r' t'
          using IHs[OF f1[symmetric] r1 refl dir rd[symmetric] refl Some f3[symmetric] r3 refl _ A B pre']
          by blast
        have "walk_loop (\<lambda>d1. walkDir fn (path @ [dname d1]) d1) dirs s3 = (r, s')"
          using eq f1 r1 True rd Some f3 r3 by (simp add: walkDir.simps[of fn path d s])
        from walk_loop_inv[where I = I, OF _ I3 this] step show ?thesis by blast
      qed
    qed
  qed
qed


lemma walkDir_inv:
  assumes "\<And>p d e s r s'. prefix root p \<Longrightarrow> I s \<Longrightarrow> fn p d e s = (r, s') \<Longrightarrow> I s'"
    and "\<And>p rep w ds e w'. prefix root p \<Longrightarrow> I (rep, w) \<Longrightarrow> os_ReadDir p w = (ds, e, w') \<Longrightarrow> I (rep, w')"
    and "prefix root path" and "I s" and "walkDir fn path d s = (r, s')"
  shows "I s'"
  by (rule walkDir_inv_aux[of root I fn path s d r s']) (use assms in blast)+

lemma walk_loop_ret:
  "(\<And>d s. d \<in> set ds \<Longrightarrow> fst (f d s) = Return None) \<Longrightarrow> fst (walk_loop f ds s) = Return None"
proof (induction ds arbitrary: s)
  case Nil
  then show ?case by simp
next
  case (Cons d ds)
  obtain r1 s1 where f: "f d s = (r1, s1)" by (cases "f d s")
  with Cons.prems[of d s] have "r1 = Return None" by simp
  with f Cons show ?case by simp
qed

lemma walkDir_ret:
  "\<forall>p d e s. fst (fn p (Some d) e s) = Return None \<Longrightarrow> fst (walkDir fn path d s) = Return None"
proof (induction fn path d s rule: walkDir.induct)
  case (1 fn path d s)
  note IHn = "1.IH"(1) and IHs = "1.IH"(2)
  note A = "1.prems"
  obtain r1 s1 where f1: "fn path (Some d) None s = (r1, s1)"
    by (cases "fn path (Some d) None s")
  have r1: "r1 = Return None" using A f1 by (metis fst_conv)
  show ?case
  proof (cases "IsDir d")
    case False
    then show ?thesis using f1 r1 by (simp add: walkDir.simps[of fn path d s])
  next
    case True
    then have dir: "\<not> \<not> IsDir d" by simp
    obtain dirs rerr w2 where rd: "os_ReadDir path (snd s1) = (dirs, rerr, w2)"
      by (cases "os_ReadDir path (snd s1)")
    show ?thesis
    proof (cases rerr)
      case None
      have "fst (walk_loop (\<lambda>d1. walkDir fn (path @ [dname d1]) d1) dirs (fst s1, w2)) = Return None"
        by (rule walk_loop_ret) (rule IHn[OF f1[symmetric] r1 refl dir rd[symmetric] refl None _ A])
      then show ?thesis using f1 r1 True rd None by (simp add: walkDir.simps[of fn path d s])
    next
      case (Some e)
      obtain r3 s3 where f3: "fn path (Some d) (Some e) (fst s1, w2) = (r3, s3)"
        by (cases "fn path (Some d) (Some e) (fst s1, w2)")
      have r3: "r3 = Return None" using A f3 by (metis fst_conv)
      have "fst (walk_loop (\<lambda>d1. walkDir fn (path @ [dname d1]) d1) dirs s3) = Return None"
        by (rule walk_loop_ret)
           (rule IHs[OF f1[symmetric] r1 refl dir rd[symmetric] refl Some f3[symmetric] r3 refl _ A])
      then show ?thesis using f1 r1 True rd Some f3 r3 by (simp add: walkDir.simps[of fn path d s])
    qed
  qed
qed

lemma WalkDir_ret:
  assumes "\<forall>p d e s. fst (fn p (Some d) e s) = Return None"
    and "\<forall>p e s. fst (fn p None (Some e) s) = Return None"
  shows "fst (WalkDir root fn s) = Return None"
proof -
  obtain r1 w1 where l: "os_Lstat root (snd s) = (r1, w1)" by (cases "os_Lstat root (snd s)")
  show ?thesis
  proof (cases r1)
    case (Inl e)
    obtain r2 s2 where f: "fn root None (Some e) (fst s, w1) = (r2, s2)"
      by (cases "fn root None (Some e) (fst s, w1)")
    then have "r2 = Return None" using assms(2) by (metis fst_conv)
    with l Inl f show ?thesis by (simp add: WalkDir_def)
  next
    case (Inr info)
    let ?d = "\<lparr>dname = (if root = [] then [] else last root), dtype = Mode info, dinfo = Some info\<rparr>"
    obtain r2 s2 where f: "walkDir fn root ?d (fst s, w1) = (r2, s2)"
      by (cases "walkDir fn root ?d (fst s, w1)")
    then have "r2 = Return None" using walkDir_ret[OF assms(1), of root ?d "(fst s, w1)"] by simp
    with l Inr f show ?thesis by (simp add: WalkDir_def)
  qed
qed

lemma os_Lstat_D:
  "os_Lstat p w = (r, w') \<Longrightarrow>
   files w' = files w \<and> trace w' = trace w @ [OpLstat p] \<and> logs w' = logs w \<and> now w' = now w"
  by (auto simp: os_Lstat_def split: prod.splits option.splits sum.splits dest!: enter_eqD)

lemma os_Stat_D:
  "os_Stat p w = (r, w') \<Longrightarrow>
   files w' = files w \<and> trace w' = trace w @ [OpStat p] \<and> logs w' = logs w \<and> now w' = now w"
  by (auto simp: os_Stat_def split: prod.splits option.splits sum.splits dest!: enter_eqD)

lemma os_ReadDir_D:
  "os_ReadDir p w = (ds, e, w') \<Longrightarrow>
   files w' = files w \<and> trace w' = trace w @ [OpReadDir p] \<and> logs w' = logs w \<and> now w' = now w"
  by (auto simp: os_ReadDir_def split: prod.splits option.splits sum.splits if_splits dest!: enter_eqD)

lemma WalkDir_inv:
  assumes fn: "\<And>p d e s r s'. prefix root p \<Longrightarrow> I s \<Longrightarrow> fn p d e s = (r, s') \<Longrightarrow> I s'"
    and rd: "\<And>p rep w ds e w'. prefix root p \<Longrightarrow> I (rep, w) \<Longrightarrow> os_ReadDir p w = (ds, e, w') \<Longrightarrow> I (rep, w')"
    and ls: "\<And>rep w i w'. I (rep, w) \<Longrightarrow> os_Lstat root w = (i, w') \<Longrightarrow> I (rep, w')"
    and "I s" and "WalkDir root fn s = (r, s')"
  shows "I s'"
proof -
  obtain r1 w1 where l: "os_Lstat root (snd s) = (r1, w1)" by (cases "os_Lstat root (snd s)")
  have I1: "I (fst s, w1)" using ls[OF _ l, of "fst s"] assms(4) by simp
  show ?thesis
  proof (cases r1)
    case (Inl e)
    obtain r2 s2 where f: "fn root None (Some e) (fst s, w1) = (r2, s2)"
      by (cases "fn root None (Some e) (fst s, w1)")
    have "I s2" using fn[OF _ I1 f] by simp
    moreover have "s' = s2" using assms(5) l Inl f
      by (auto simp: WalkDir_def split: ret.splits option.splits if_splits)
    ultimately show ?thesis by simp
  next
    case (Inr info)
    let ?d = "\<lparr>dname = (if root = [] then [] else last root), dtype = Mode info, dinfo = Some info\<rparr>"
    obtain r2 s2 where f: "walkDir fn root ?d (fst s, w1) = (r2, s2)"
      by (cases "walkDir fn root ?d (fst s, w1)")
    have "I s2" by (rule walkDir_inv[of root I fn root "(fst s, w1)" ?d r2 s2, OF fn rd _ I1 f]) simp_all
    moreover have "s' = s2" using assms(5) l Inr f
      by (auto simp: WalkDir_def split: ret.splits option.splits if_splits)
    ultimately show ?thesis by simp
  qed
qed

lemma forward_ret: "d \<noteq> None \<or> e \<noteq> None \<Longrightarrow> fst (forward opt p d e s) = Return None"
  by (auto simp: forward_def Let_def split: prod.splits option.splits sum.splits)

lemma delete_pass_ret: "d \<noteq> None \<or> e \<noteq> None \<Longrightarrow> fst (delete_pass opt p d e s) = Return None"
  by (auto simp: delete_pass_def Let_def split: prod.splits option.splits sum.splits)

lemma WalkDir_forward_ret: "fst (WalkDir root (forward opt) s) = Return None"
  by (rule WalkDir_ret) (simp_all add: forward_ret)

lemma WalkDir_delete_ret: "fst (WalkDir root (delete_pass opt) s) = Return None"
  by (rule WalkDir_ret) (simp_all add: delete_pass_ret)

lemma Sync_eq:
  "Sync opt w =
     (let (rep1, w1) = snd (WalkDir (Source opt) (forward opt) (empty_report, w))
      in if DeleteMissing opt
         then (let (rep3, w3) = snd (WalkDir (Target opt) (delete_pass opt) (rep1, w1)) in (Some rep3, w3))
         else (Some rep1, w1))"
proof -
  obtain r1 rep1 w1 where a: "WalkDir (Source opt) (forward opt) (empty_report, w) = (r1, rep1, w1)"
    by (cases "WalkDir (Source opt) (forward opt) (empty_report, w)") auto
  have r1: "r1 = Return None" using WalkDir_forward_ret[of "Source opt" opt "(empty_report, w)"] a by simp
  obtain r3 rep3 w3 where b: "WalkDir (Target opt) (delete_pass opt) (rep1, w1) = (r3, rep3, w3)"
    by (cases "WalkDir (Target opt) (delete_pass opt) (rep1, w1)") auto
  have r3: "r3 = Return None" using WalkDir_delete_ret[of "Target opt" opt "(rep1, w1)"] b by simp
  show ?thesis using a r1 b r3 by (simp add: Sync_def)
qed


section \<open>Facts about the report\<close>

lemma report_le_refl [simp]: "report_le r r"
  by (simp add: report_le_def)

lemma report_le_trans: "report_le a b \<Longrightarrow> report_le b c \<Longrightarrow> report_le a c"
  by (auto simp: report_le_def)

lemma report_le_addErr [simp]: "report_le r (addErr e r)"
  by (auto simp: report_le_def addErr_def split: option.splits)

lemma forward_mono: "report_le rep (fst (snd (forward opt p d e (rep, w))))"
  by (auto simp: forward_def Let_def report_le_def addErr_def split: prod.splits option.splits sum.splits)

lemma delete_pass_mono: "report_le rep (fst (snd (delete_pass opt p d e (rep, w))))"
  by (auto simp: delete_pass_def Let_def report_le_def addErr_def split: prod.splits option.splits sum.splits)

lemma WalkDir_forward_mono: "report_le rep (fst (snd (WalkDir root (forward opt) (rep, w))))"
proof -
  obtain r s' where e: "WalkDir root (forward opt) (rep, w) = (r, s')"
    by (cases "WalkDir root (forward opt) (rep, w)")
  have "report_le rep (fst s')"
  proof (rule WalkDir_inv[where I = "\<lambda>s. report_le rep (fst s)", OF _ _ _ _ e])
    fix p d x s r s'
    assume "report_le rep (fst s)" "forward opt p d x s = (r, s')"
    then show "report_le rep (fst s')"
      using forward_mono[of "fst s" opt p d x "snd s"] by (auto intro: report_le_trans)
  qed simp_all
  with e show ?thesis by simp
qed

lemma WalkDir_delete_mono: "report_le rep (fst (snd (WalkDir root (delete_pass opt) (rep, w))))"
proof -
  obtain r s' where e: "WalkDir root (delete_pass opt) (rep, w) = (r, s')"
    by (cases "WalkDir root (delete_pass opt) (rep, w)")
  have "report_le rep (fst s')"
  proof (rule WalkDir_inv[where I = "\<lambda>s. report_le rep (fst s)", OF _ _ _ _ e])
    fix p d x s r s'
    assume "report_le rep (fst s)" "delete_pass opt p d x s = (r, s')"
    then show "report_le rep (fst s')"
      using delete_pass_mono[of "fst s" opt p d x "snd s"] by (auto intro: report_le_trans)
  qed simp_all
  with e show ?thesis by simp
qed








section \<open>The walk as a fold, and the cases of a visit\<close>





lemma WalkDir_unfold:
  assumes A: "\<forall>p d e s. fst (fn p (Some d) e s) = Return None"
    and B: "\<forall>p e s. fst (fn p None (Some e) s) = Return None"
  shows "WalkDir root fn s =
     (Return None,
      (case os_Lstat root (snd s) of
         (Inl err, w1) \<Rightarrow> snd (fn root None (Some err) (fst s, w1))
       | (Inr info, w1) \<Rightarrow>
           snd (walkDir fn root
                  \<lparr>dname = (if root = [] then [] else last root), dtype = Mode info, dinfo = Some info\<rparr>
                  (fst s, w1))))"
proof -
  have "fst (WalkDir root fn s) = Return None" by (rule WalkDir_ret[OF A B])
  moreover have "snd (WalkDir root fn s) =
      (case os_Lstat root (snd s) of
         (Inl err, w1) \<Rightarrow> snd (fn root None (Some err) (fst s, w1))
       | (Inr info, w1) \<Rightarrow>
           snd (walkDir fn root
                  \<lparr>dname = (if root = [] then [] else last root), dtype = Mode info, dinfo = Some info\<rparr>
                  (fst s, w1)))"
    by (auto simp: WalkDir_def split: prod.splits sum.splits ret.splits option.splits)
  ultimately show ?thesis by (metis prod.collapse)
qed











lemma forward_cases:
  fixes opt p d e rep w
  defines "tp \<equiv> Target opt @ Rel (Source opt) p"
  obtains
    (walk_err) x where "e = Some x"
      "forward opt p d e (rep, w) = (Return None, (addErr (Some x) rep, Printf (LogErr ''odczyt'' p x) w))"
  | (root) "e = None" "p = Source opt" "forward opt p d e (rep, w) = (Return None, (rep, w))"
  | (nil_entry) "e = None" "p \<noteq> Source opt" "d = None" "forward opt p d e (rep, w) = (Panic, (rep, w))"
  | (mkdir_err) de x w1 where "e = None" "p \<noteq> Source opt" "d = Some de" "IsDir de"
      "os_MkdirAll tp w = (Some x, w1)"
      "forward opt p d e (rep, w) = (Return None, (addErr (Some x) rep, Printf (LogErr ''mkdir'' tp x) w1))"
  | (mkdir_ok) de w1 where "e = None" "p \<noteq> Source opt" "d = Some de" "IsDir de"
      "os_MkdirAll tp w = (None, w1)"
      "forward opt p d e (rep, w) = (Return None, (rep, w1))"
  | (info_err) de x w1 where "e = None" "p \<noteq> Source opt" "d = Some de" "\<not> IsDir de"
      "Info p de w = (Inl x, w1)"
      "forward opt p d e (rep, w) = (Return None, (addErr (Some x) rep, Printf (LogErr ''info'' p x) w1))"
  | (irregular) de info w1 where "e = None" "p \<noteq> Source opt" "d = Some de" "\<not> IsDir de"
      "Info p de w = (Inr info, w1)" "Mode info \<noteq> Regular"
      "forward opt p d e (rep, w) =
         (Return None, (rep\<lparr>Skipped := Skipped rep + 1\<rparr>, Printf (LogSkipIrregular p) w1))"
  | (stat_err) de info w1 x w2 where "e = None" "p \<noteq> Source opt" "d = Some de" "\<not> IsDir de"
      "Info p de w = (Inr info, w1)" "Mode info = Regular"
      "os_Stat tp w1 = (Inl x, w2)" "\<not> is_not_exist x"
      "forward opt p d e (rep, w) = (Return None, (addErr (Some x) rep, Printf (LogErr ''stat'' tp x) w2))"
  | (copy_err) de info w1 x w2 ce w3 where "e = None" "p \<noteq> Source opt" "d = Some de" "\<not> IsDir de"
      "Info p de w = (Inr info, w1)" "Mode info = Regular"
      "os_Stat tp w1 = (Inl x, w2)" "is_not_exist x" "copyFile p tp info w2 = (Some ce, w3)"
      "forward opt p d e (rep, w) =
         (Return None, (addErr (Some ce) rep, Printf (LogErr2 ''copy NEW'' p tp ce) w3))"
  | (copy_ok) de info w1 x w2 w3 where "e = None" "p \<noteq> Source opt" "d = Some de" "\<not> IsDir de"
      "Info p de w = (Inr info, w1)" "Mode info = Regular"
      "os_Stat tp w1 = (Inl x, w2)" "is_not_exist x" "copyFile p tp info w2 = (None, w3)"
      "forward opt p d e (rep, w) =
         (Return None, (rep\<lparr>Copied := Copied rep + 1\<rparr>, Printf (LogCopy p tp) w3))"
  | (over_err) de info w1 tst w2 ce w3 where "e = None" "p \<noteq> Source opt" "d = Some de" "\<not> IsDir de"
      "Info p de w = (Inr info, w1)" "Mode info = Regular"
      "os_Stat tp w1 = (Inr tst, w2)" "differ info tst" "copyFile p tp info w2 = (Some ce, w3)"
      "forward opt p d e (rep, w) =
         (Return None, (addErr (Some ce) rep, Printf (LogErr2 ''overwrite'' p tp ce) w3))"
  | (over_ok) de info w1 tst w2 w3 where "e = None" "p \<noteq> Source opt" "d = Some de" "\<not> IsDir de"
      "Info p de w = (Inr info, w1)" "Mode info = Regular"
      "os_Stat tp w1 = (Inr tst, w2)" "differ info tst" "copyFile p tp info w2 = (None, w3)"
      "forward opt p d e (rep, w) =
         (Return None, (rep\<lparr>Overwritten := Overwritten rep + 1\<rparr>, Printf (LogOverwrite p tp) w3))"
  | (identical) de info w1 tst w2 where "e = None" "p \<noteq> Source opt" "d = Some de" "\<not> IsDir de"
      "Info p de w = (Inr info, w1)" "Mode info = Regular"
      "os_Stat tp w1 = (Inr tst, w2)" "\<not> differ info tst"
      "forward opt p d e (rep, w) =
         (Return None, (rep\<lparr>Skipped := Skipped rep + 1\<rparr>, Printf (LogSkipIdentical (Rel (Source opt) p)) w2))"
proof (cases e)
  case (Some x)
  then show ?thesis using walk_err by (simp add: forward_def)
next
  case None
  note e = None
  show ?thesis
  proof (cases "p = Source opt")
    case True
    then show ?thesis using e root by (simp add: forward_def)
  next
    case ns: False
    show ?thesis
    proof (cases d)
      case None
      then show ?thesis using e ns nil_entry by (simp add: forward_def)
    next
      case (Some de)
      note d = Some
      show ?thesis
      proof (cases "IsDir de")
        case True
        obtain r1 w1 where m: "os_MkdirAll tp w = (r1, w1)" by (cases "os_MkdirAll tp w")
        show ?thesis
        proof (cases r1)
          case None
          then show ?thesis using e ns d True m mkdir_ok[of de w1]
            by (simp add: forward_def Let_def tp_def)
        next
          case (Some x)
          then show ?thesis using e ns d True m mkdir_err[of de x w1]
            by (simp add: forward_def Let_def tp_def)
        qed
      next
        case nd: False
        obtain r1 w1 where i: "Info p de w = (r1, w1)" by (cases "Info p de w")
        show ?thesis
        proof (cases r1)
          case (Inl x)
          then show ?thesis using e ns d nd i info_err[of de x w1]
            by (simp add: forward_def Let_def tp_def)
        next
          case (Inr info)
          note info = Inr
          show ?thesis
          proof (cases "Mode info = Regular")
            case False
            then show ?thesis using e ns d nd i info irregular[of de info w1]
              by (simp add: forward_def Let_def tp_def)
          next
            case reg: True
            obtain r2 w2 where s: "os_Stat tp w1 = (r2, w2)" by (cases "os_Stat tp w1")
            obtain r3 w3 where c: "copyFile p tp info w2 = (r3, w3)" by (cases "copyFile p tp info w2")
            show ?thesis
            proof (cases r2)
              case (Inl x)
              note x = Inl
              show ?thesis
              proof (cases "is_not_exist x")
                case False
                then show ?thesis using e ns d nd i info reg s x stat_err[of de info w1 x w2]
                  by (simp add: forward_def Let_def tp_def)
              next
                case True
                show ?thesis
                proof (cases r3)
                  case None
                  then show ?thesis using e ns d nd i info reg s x True c copy_ok[of de info w1 x w2 w3]
                    by (simp add: forward_def Let_def tp_def)
                next
                  case (Some ce)
                  then show ?thesis using e ns d nd i info reg s x True c copy_err[of de info w1 x w2 ce w3]
                    by (simp add: forward_def Let_def tp_def)
                qed
              qed
            next
              case (Inr tst)
              note tst = Inr
              show ?thesis
              proof (cases "differ info tst")
                case False
                then show ?thesis using e ns d nd i info reg s tst identical[of de info w1 tst w2]
                  by (simp add: forward_def Let_def tp_def)
              next
                case True
                show ?thesis
                proof (cases r3)
                  case None
                  then show ?thesis using e ns d nd i info reg s tst True c over_ok[of de info w1 tst w2 w3]
                    by (simp add: forward_def Let_def tp_def)
                next
                  case (Some ce)
                  then show ?thesis using e ns d nd i info reg s tst True c over_err[of de info w1 tst w2 ce w3]
                    by (simp add: forward_def Let_def tp_def)
                qed
              qed
            qed
          qed
        qed
      qed
    qed
  qed
qed

lemma delete_cases:
  fixes opt p d e rep w
  defines "sp \<equiv> Source opt @ Rel (Target opt) p"
  obtains
    (walk_err) x where "e = Some x"
      "delete_pass opt p d e (rep, w) = (Return None, (addErr (Some x) rep, Printf (LogErr ''odczyt'' p x) w))"
  | (root) "e = None" "p = Target opt" "delete_pass opt p d e (rep, w) = (Return None, (rep, w))"
  | (nil_entry) "e = None" "p \<noteq> Target opt" "d = None" "delete_pass opt p d e (rep, w) = (Panic, (rep, w))"
  | (dir) de where "e = None" "p \<noteq> Target opt" "d = Some de" "IsDir de"
      "delete_pass opt p d e (rep, w) = (Return None, (rep, w))"
  | (present) de i w1 where "e = None" "p \<noteq> Target opt" "d = Some de" "\<not> IsDir de"
      "os_Stat sp w = (Inr i, w1)"
      "delete_pass opt p d e (rep, w) = (Return None, (rep, w1))"
  | (stat_err) de x w1 where "e = None" "p \<noteq> Target opt" "d = Some de" "\<not> IsDir de"
      "os_Stat sp w = (Inl x, w1)" "\<not> is_not_exist x"
      "delete_pass opt p d e (rep, w) = (Return None, (addErr (Some x) rep, Printf (LogErr ''stat'' sp x) w1))"
  | (remove_err) de x w1 rmErr w2 where "e = None" "p \<noteq> Target opt" "d = Some de" "\<not> IsDir de"
      "os_Stat sp w = (Inl x, w1)" "is_not_exist x" "os_Remove p w1 = (Some rmErr, w2)"
      "delete_pass opt p d e (rep, w) =
         (Return None, (addErr (Some rmErr) rep, Printf (LogErr ''delete'' p rmErr) w2))"
  | (removed) de x w1 w2 where "e = None" "p \<noteq> Target opt" "d = Some de" "\<not> IsDir de"
      "os_Stat sp w = (Inl x, w1)" "is_not_exist x" "os_Remove p w1 = (None, w2)"
      "delete_pass opt p d e (rep, w) =
         (Return None, (rep\<lparr>Deleted := Deleted rep + 1\<rparr>, Printf (LogDelete p) w2))"
proof (cases e)
  case (Some x)
  then show ?thesis using walk_err by (simp add: delete_pass_def)
next
  case None
  note e = None
  show ?thesis
  proof (cases "p = Target opt")
    case True
    then show ?thesis using e root by (simp add: delete_pass_def)
  next
    case ns: False
    show ?thesis
    proof (cases d)
      case None
      then show ?thesis using e ns nil_entry by (simp add: delete_pass_def)
    next
      case (Some de)
      note d = Some
      show ?thesis
      proof (cases "IsDir de")
        case True
        then show ?thesis using e ns d dir[of de] by (simp add: delete_pass_def Let_def)
      next
        case nd: False
        obtain r1 w1 where s: "os_Stat sp w = (r1, w1)" by (cases "os_Stat sp w")
        obtain r2 w2 where r: "os_Remove p w1 = (r2, w2)" by (cases "os_Remove p w1")
        show ?thesis
        proof (cases r1)
          case (Inr i)
          then show ?thesis using e ns d nd s present[of de i w1]
            by (simp add: delete_pass_def Let_def sp_def)
        next
          case (Inl x)
          note x = Inl
          show ?thesis
          proof (cases "is_not_exist x")
            case False
            then show ?thesis using e ns d nd s x stat_err[of de x w1]
              by (simp add: delete_pass_def Let_def sp_def)
          next
            case True
            show ?thesis
            proof (cases r2)
              case None
              then show ?thesis using e ns d nd s x True r removed[of de x w1 w2]
                by (simp add: delete_pass_def Let_def sp_def)
            next
              case (Some rmErr)
              then show ?thesis using e ns d nd s x True r remove_err[of de x w1 rmErr w2]
                by (simp add: delete_pass_def Let_def sp_def)
            qed
          qed
        qed
      qed
    qed
  qed
qed

lemma mkdir_chain_keeps:
  "mkdir_chain t fs cur ns = (r, fs') \<Longrightarrow> map_of fs p \<noteq> None \<Longrightarrow> map_of fs' p = map_of fs p"
proof (induction t fs cur ns arbitrary: r fs' rule: mkdir_chain.induct)
  case (1 t fs cur)
  then show ?case by simp
next
  case (2 t fs cur n ns)
  show ?case
  proof (cases "PATH_MAX < plen (cur @ [n])")
    case True
    with 2(3) show ?thesis by simp
  next
    case False
    show ?thesis
    proof (cases "map_of fs (cur @ [n])")
      case None
      let ?fs = "AList.update (cur @ [n]) \<lparr>ntype = Directory, ncontent = [], nmtime = t, nperm = 493\<rparr> fs"
      have ne: "p \<noteq> cur @ [n]" using None 2(4) by auto
      then have "map_of ?fs p = map_of fs p" by (simp add: update_conv')
      with False None 2(3) 2(1)[OF False None, of r fs'] 2(4) show ?thesis by simp
    next
      case (Some d)
      with False 2(3) 2(2)[OF False Some _ _ 2(4)] show ?thesis
        by (auto split: if_splits)
    qed
  qed
qed

lemma os_MkdirAll_changes:
  assumes "os_MkdirAll q w = (r, w')" and "map_of (files w') p \<noteq> map_of (files w) p"
  shows "prefix p q \<and> p \<noteq> [] \<and> map_of (files w) p = None"
proof -
  have a: "prefix p q \<and> p \<noteq> []" using os_MkdirAll_frame[OF assms(1), of p] assms(2) by blast
  have "map_of (files w) p = None"
  proof (rule ccontr)
    assume ne: "map_of (files w) p \<noteq> None"
    have "map_of (files w') p = map_of (files w) p"
      using assms(1) mkdir_chain_keeps[OF _ ne]
      by (auto simp: os_MkdirAll_def split: prod.splits option.splits dest!: enter_eqD)
    with assms(2) show False by simp
  qed
  with a show ?thesis by simp
qed



lemma Printf_simps [simp]:
  "files (Printf l w) = files w" "logs (Printf l w) = logs w @ [l]" "now (Printf l w) = now w"
  "trace (Printf l w) = trace w" "script (Printf l w) = script w"
  by (simp_all add: Printf_def)

lemma accounts_snoc:
  "accounts r ls \<Longrightarrow> is_copy_line l \<Longrightarrow> accounts (r\<lparr>Copied := Copied r + 1\<rparr>) (ls @ [l])"
  "accounts r ls \<Longrightarrow> is_overwrite_line l \<Longrightarrow> accounts (r\<lparr>Overwritten := Overwritten r + 1\<rparr>) (ls @ [l])"
  "accounts r ls \<Longrightarrow> is_skip_line l \<Longrightarrow> accounts (r\<lparr>Skipped := Skipped r + 1\<rparr>) (ls @ [l])"
  "accounts r ls \<Longrightarrow> is_delete_line l \<Longrightarrow> accounts (r\<lparr>Deleted := Deleted r + 1\<rparr>) (ls @ [l])"
  "accounts r ls \<Longrightarrow> is_err_line l \<Longrightarrow> accounts (addErr (Some e) r) (ls @ [l])"
  by (cases l; simp add: accounts_def addErr_def)+








section \<open>Every step is confined to the target root\<close>

lemma Rel_Nil [simp]: "Rel [] r = r"
  by (cases r) simp_all

lemma Rel_append [simp]: "Rel b (b @ r) = r"
  by (induction b) simp_all

lemma tmp_path_append: "r \<noteq> [] \<Longrightarrow> tmp_path (T @ r) = T @ tmp_path r"
  by (simp add: tmp_path_snoc butlast_append)

lemma mkdir_chain_created:
  "mkdir_chain t fs cur ns = (r, fs') \<Longrightarrow> map_of fs' p \<noteq> map_of fs p \<Longrightarrow> is_dir_at fs' p"
proof (induction t fs cur ns arbitrary: r fs' rule: mkdir_chain.induct)
  case (1 t fs cur)
  then show ?case by simp
next
  case (2 t fs cur n ns)
  show ?case
  proof (cases "PATH_MAX < plen (cur @ [n])")
    case True
    with 2(3,4) show ?thesis by simp
  next
    case False
    show ?thesis
    proof (cases "map_of fs (cur @ [n])")
      case None
      let ?d = "\<lparr>ntype = Directory, ncontent = [], nmtime = t, nperm = 493\<rparr>"
      let ?fs = "AList.update (cur @ [n]) ?d fs"
      have eq: "mkdir_chain t ?fs (cur @ [n]) ns = (r, fs')" using False None 2(3) by simp
      show ?thesis
      proof (cases "map_of fs' p = map_of ?fs p")
        case True
        with 2(4) have "p = cur @ [n]" by (auto simp: update_conv' split: if_splits)
        with True show ?thesis by (simp add: is_dir_at_def update_conv')
      next
        case False
        from 2(1)[OF \<open>\<not> PATH_MAX < plen (cur @ [n])\<close> None eq False] show ?thesis .
      qed
    next
      case (Some d)
      with False 2(3) 2(2)[OF False Some _ _ 2(4)] 2(4) show ?thesis
        by (auto split: if_splits)
    qed
  qed
qed

lemma os_MkdirAll_created:
  assumes "os_MkdirAll q w = (r, w')" and "map_of (files w') p \<noteq> map_of (files w) p"
  shows "is_dir_at (files w') p"
  using assms mkdir_chain_created
  by (auto simp: os_MkdirAll_def split: prod.splits option.splits dest!: enter_eqD)

lemma confined_refl [simp]: "confined T w w"
  by (simp add: confined_def under_def)

lemma confined_trans:
  assumes "confined T a b" "confined T b c"
  shows "confined T a c"
proof -
  obtain n1 n2 where t: "trace b = trace a @ n1" "under T n1" "trace c = trace b @ n2" "under T n2"
    using assms by (auto simp: confined_def)
  have tr: "\<exists>new. trace c = trace a @ new \<and> under T new"
    using t by (intro exI[of _ "n1 @ n2"]) (auto simp: under_def)
  have F1: "map_of (files b) q \<noteq> map_of (files a) q \<Longrightarrow> \<not> prefix T q \<Longrightarrow>
      strict_prefix q T \<and> map_of (files a) q = None \<and> is_dir_at (files b) q" for q
    using assms(1) unfolding confined_def by blast
  have F2: "map_of (files c) q \<noteq> map_of (files b) q \<Longrightarrow> \<not> prefix T q \<Longrightarrow>
      strict_prefix q T \<and> map_of (files b) q = None \<and> is_dir_at (files c) q" for q
    using assms(2) unfolding confined_def by blast
  have fr: "prefix T q \<or> (strict_prefix q T \<and> map_of (files a) q = None \<and> is_dir_at (files c) q)"
    if ch: "map_of (files c) q \<noteq> map_of (files a) q" for q
  proof (cases "prefix T q")
    case True
    then show ?thesis by simp
  next
    case False
    show ?thesis
    proof (cases "map_of (files b) q = map_of (files a) q")
      case True
      with ch have "map_of (files c) q \<noteq> map_of (files b) q" by simp
      from F2[OF this False] True show ?thesis by simp
    next
      case ab: False
      from F1[OF ab False] have 1: "strict_prefix q T" "map_of (files a) q = None" "is_dir_at (files b) q"
        by simp_all
      have "map_of (files c) q = map_of (files b) q"
      proof (rule ccontr)
        assume "map_of (files c) q \<noteq> map_of (files b) q"
        from F2[OF this False] have "map_of (files b) q = None" by simp
        with 1(3) show False by (simp add: is_dir_at_def)
      qed
      with 1 show ?thesis by (simp add: is_dir_at_def)
    qed
  qed
  show ?thesis using tr fr by (simp add: confined_def)
qed

lemma confined_same:
  "files w' = files w \<Longrightarrow> trace w' = trace w @ [a] \<Longrightarrow> writes a = [] \<Longrightarrow> confined T w w'"
  by (simp add: confined_def under_def)

lemma confined_at:
  "\<forall>q. q \<notin> set (writes a) \<longrightarrow> map_of (files w') q = map_of (files w) q \<Longrightarrow>
   trace w' = trace w @ [a] \<Longrightarrow> \<forall>q \<in> set (writes a). prefix T q \<Longrightarrow> confined T w w'"
  unfolding confined_def under_def by (metis append_Nil2 empty_iff empty_set list.set(2) singletonD)

lemma confined_Printf [simp]: "confined T w v \<Longrightarrow> confined T w (Printf l v)"
  by (simp add: confined_def under_def)

lemma confined_Lstat: "os_Lstat p w = (r, w') \<Longrightarrow> confined T w w'"
  by (drule os_Lstat_D) (simp add: confined_same)

lemma confined_Stat: "os_Stat p w = (r, w') \<Longrightarrow> confined T w w'"
  by (drule os_Stat_D) (simp add: confined_same)

lemma confined_ReadDir: "os_ReadDir p w = (ds, r, w') \<Longrightarrow> confined T w w'"
  by (drule os_ReadDir_D) (simp add: confined_same)

lemma confined_Open: "os_Open p w = (r, w') \<Longrightarrow> confined T w w'"
  by (drule os_Open_D) (simp add: confined_same)

lemma confined_Close: "file_Close p w = (r, w') \<Longrightarrow> confined T w w'"
  by (drule file_Close_D) (simp add: confined_same)

lemma confined_Info: "Info p d w = (r, w') \<Longrightarrow> confined T w w'"
  by (auto simp: Info_def split: option.splits dest: confined_Lstat)

lemma confined_OpenFile: "os_OpenFile p m w = (r, w') \<Longrightarrow> prefix T p \<Longrightarrow> confined T w w'"
  by (drule os_OpenFile_D) (rule confined_at[where a = "OpOpenFile p"], simp_all)

lemma confined_Copy: "io_Copy p sf w = (r, w') \<Longrightarrow> prefix T p \<Longrightarrow> confined T w w'"
  by (drule io_Copy_D) (rule confined_at[where a = "OpCopy p sf"], simp_all)

lemma confined_Chtimes: "os_Chtimes p m w = (r, w') \<Longrightarrow> prefix T p \<Longrightarrow> confined T w w'"
  by (drule os_Chtimes_D) (rule confined_at[where a = "OpChtimes p"], simp_all)

lemma confined_Remove: "os_Remove p w = (r, w') \<Longrightarrow> prefix T p \<Longrightarrow> confined T w w'"
  by (drule os_Remove_D) (rule confined_at[where a = "OpRemove p"], simp_all)

lemma confined_Rename:
  "os_Rename a b w = (r, w') \<Longrightarrow> prefix T a \<Longrightarrow> prefix T b \<Longrightarrow> confined T w w'"
  by (drule os_Rename_D) (rule confined_at[where a = "OpRename a b"], simp_all)

lemma confined_MkdirAll:
  assumes "os_MkdirAll p w = (r, w')" "prefix T p"
  shows "confined T w w'"
proof -
  have tr: "trace w' = trace w @ [OpMkdirAll p]" using os_MkdirAll_D[OF assms(1)] by simp
  have fr: "prefix T q \<or> (strict_prefix q T \<and> map_of (files w) q = None \<and> is_dir_at (files w') q)"
    if ch: "map_of (files w') q \<noteq> map_of (files w) q" for q
  proof -
    from os_MkdirAll_changes[OF assms(1) ch] have 1: "prefix q p" "map_of (files w) q = None" by simp_all
    from os_MkdirAll_created[OF assms(1) ch] have 2: "is_dir_at (files w') q" .
    from 1(1) assms(2) have "prefix T q \<or> strict_prefix q T"
      by (metis prefix_same_cases strict_prefix_def)
    with 1 2 show ?thesis by blast
  qed
  show ?thesis unfolding confined_def using tr fr assms(2) by (auto simp: under_def)
qed

lemma confined_copyFile:
  assumes "copyFile src dst info w = (r, w')" "prefix T dst" "prefix T (butlast dst)" "prefix T (tmp_path dst)"
  shows "confined T w w'"
proof -
  let ?tmp = "tmp_path dst"
  obtain r1 w1 where 1: "os_MkdirAll (butlast dst) w = (r1, w1)" by (cases "os_MkdirAll (butlast dst) w")
  obtain r2 w2 where 2: "os_Open src w1 = (r2, w2)" by (cases "os_Open src w1")
  obtain r3 w3 where 3: "os_OpenFile ?tmp (Perm info) w2 = (r3, w3)" by (cases "os_OpenFile ?tmp (Perm info) w2")
  obtain r4 w4 where 4: "io_Copy ?tmp src w3 = (r4, w4)" by (cases "io_Copy ?tmp src w3")
  obtain r5 w5 where 5: "file_Close ?tmp w4 = (r5, w5)" by (cases "file_Close ?tmp w4")
  obtain r6 w6 where 6: "os_Chtimes ?tmp (ModTime info) w5 = (r6, w6)" by (cases "os_Chtimes ?tmp (ModTime info) w5")
  obtain r7 w7 where 7: "os_Rename ?tmp dst w6 = (r7, w7)" by (cases "os_Rename ?tmp dst w6")
  define cl where "cl = (\<lambda>v. snd (file_Close src v))"
  define rm where "rm = (\<lambda>v. snd (os_Remove ?tmp v))"
  have mem: "w' \<in> {w1, w2, cl w3, cl (rm w5), cl (rm w6), cl (rm w7), cl w7}"
    using assms(1) 1 2 3 4 5 6 7 unfolding copyFile_def Let_def cl_def rm_def
    by (auto split: option.splits)
  have "confined T v (cl v)" for v :: world
    unfolding cl_def by (rule confined_Close[of src v "fst (file_Close src v)"]) simp
  then have Pcl: "confined T w v \<Longrightarrow> confined T w (cl v)" for v :: world
    using confined_trans by blast
  have "confined T v (rm v)" for v :: world
    unfolding rm_def by (rule confined_Remove[of ?tmp v "fst (os_Remove ?tmp v)"]) (simp_all add: assms(4))
  then have Prm: "confined T w v \<Longrightarrow> confined T w (rm v)" for v :: world
    using confined_trans by blast
  have P1: "confined T w w1" using confined_MkdirAll[OF 1 assms(3)] .
  have P2: "confined T w w2" using P1 confined_Open[OF 2] confined_trans by blast
  have P3: "confined T w w3" using P2 confined_OpenFile[OF 3 assms(4)] confined_trans by blast
  have P4: "confined T w w4" using P3 confined_Copy[OF 4 assms(4)] confined_trans by blast
  have P5: "confined T w w5" using P4 confined_Close[OF 5] confined_trans by blast
  have P6: "confined T w w6" using P5 confined_Chtimes[OF 6 assms(4)] confined_trans by blast
  have P7: "confined T w w7" using P6 confined_Rename[OF 7 assms(4) assms(2)] confined_trans by blast
  show ?thesis using mem P1 P2 P3 P5 P6 P7 Pcl Prm by auto
qed

lemma confined_forward:
  assumes "prefix (Source opt) p"
  shows "confined (Target opt) w (snd (snd (forward opt p d e (rep, w))))"
proof -
  let ?T = "Target opt"
  let ?tp = "Target opt @ Rel (Source opt) p"
  obtain r where p: "p = Source opt @ r" using assms by (auto simp: prefix_def)
  have tp: "p \<noteq> Source opt \<Longrightarrow> prefix ?T ?tp \<and> prefix ?T (butlast ?tp) \<and> prefix ?T (tmp_path ?tp)"
    using p by (auto simp: tmp_path_append butlast_append)
  note tr = confined_trans[of ?T]
  show ?thesis
  proof (cases rule: forward_cases[of e opt p d rep w])
    case (walk_err x)
    then show ?thesis by simp
  next
    case root
    then show ?thesis by simp
  next
    case nil_entry
    then show ?thesis by simp
  next
    case (mkdir_err de x w1)
    then show ?thesis using tp confined_MkdirAll[OF mkdir_err(5), of ?T]
      by (auto intro!: confined_Printf intro: tr)
  next
    case (mkdir_ok de w1)
    then show ?thesis using tp confined_MkdirAll[OF mkdir_ok(5), of ?T] by simp
  next
    case (info_err de x w1)
    then show ?thesis using confined_Info[OF info_err(5), of ?T] by (auto intro!: confined_Printf intro: tr)
  next
    case (irregular de info w1)
    then show ?thesis using confined_Info[OF irregular(5), of ?T] by (auto intro!: confined_Printf intro: tr)
  next
    case (stat_err de info w1 x w2)
    then show ?thesis using confined_Info[OF stat_err(5), of ?T] confined_Stat[OF stat_err(7), of ?T]
      by (auto intro!: confined_Printf intro: tr)
  next
    case (copy_err de info w1 x w2 ce w3)
    then show ?thesis using tp confined_Info[OF copy_err(5), of ?T] confined_Stat[OF copy_err(7), of ?T]
        confined_copyFile[OF copy_err(9), of ?T]
      by (auto intro!: confined_Printf intro: tr)
  next
    case (copy_ok de info w1 x w2 w3)
    then show ?thesis using tp confined_Info[OF copy_ok(5), of ?T] confined_Stat[OF copy_ok(7), of ?T]
        confined_copyFile[OF copy_ok(9), of ?T]
      by (auto intro!: confined_Printf intro: tr)
  next
    case (over_err de info w1 tst w2 ce w3)
    then show ?thesis using tp confined_Info[OF over_err(5), of ?T] confined_Stat[OF over_err(7), of ?T]
        confined_copyFile[OF over_err(9), of ?T]
      by (auto intro!: confined_Printf intro: tr)
  next
    case (over_ok de info w1 tst w2 w3)
    then show ?thesis using tp confined_Info[OF over_ok(5), of ?T] confined_Stat[OF over_ok(7), of ?T]
        confined_copyFile[OF over_ok(9), of ?T]
      by (auto intro!: confined_Printf intro: tr)
  next
    case (identical de info w1 tst w2)
    then show ?thesis using confined_Info[OF identical(5), of ?T] confined_Stat[OF identical(7), of ?T]
      by (auto intro!: confined_Printf intro: tr)
  qed
qed

lemma confined_delete:
  assumes "prefix (Target opt) p"
  shows "confined (Target opt) w (snd (snd (delete_pass opt p d e (rep, w))))"
proof -
  let ?T = "Target opt"
  note tr = confined_trans[of ?T]
  show ?thesis
  proof (cases rule: delete_cases[of e opt p d rep w])
    case (walk_err x)
    then show ?thesis by simp
  next
    case root
    then show ?thesis by simp
  next
    case nil_entry
    then show ?thesis by simp
  next
    case (dir de)
    then show ?thesis by simp
  next
    case (present de i w1)
    then show ?thesis using confined_Stat[OF present(5), of ?T] by simp
  next
    case (stat_err de x w1)
    then show ?thesis using confined_Stat[OF stat_err(5), of ?T] by (auto intro!: confined_Printf intro: tr)
  next
    case (remove_err de x w1 rmErr w2)
    then show ?thesis using confined_Stat[OF remove_err(5), of ?T] confined_Remove[OF remove_err(7) assms]
      by (auto intro!: confined_Printf intro: tr)
  next
    case (removed de x w1 w2)
    then show ?thesis using confined_Stat[OF removed(5), of ?T] confined_Remove[OF removed(7) assms]
      by (auto intro!: confined_Printf intro: tr)
  qed
qed

lemma WalkDir_forward_confined:
  assumes "confined (Target opt) w0 (snd s)"
  shows "confined (Target opt) w0 (snd (snd (WalkDir (Source opt) (forward opt) s)))"
proof -
  obtain r s' where e: "WalkDir (Source opt) (forward opt) s = (r, s')"
    by (cases "WalkDir (Source opt) (forward opt) s")
  have "confined (Target opt) w0 (snd s')"
  proof (rule WalkDir_inv[where I = "\<lambda>s. confined (Target opt) w0 (snd s)", OF _ _ _ assms e])
    fix p d x s r s'
    assume "prefix (Source opt) p" "confined (Target opt) w0 (snd s)" "forward opt p d x s = (r, s')"
    then show "confined (Target opt) w0 (snd s')"
      using confined_forward[of opt p "snd s" d x "fst s"] confined_trans by fastforce
  next
    fix p rep w ds e w'
    assume "confined (Target opt) w0 (snd (rep, w))" "os_ReadDir p w = (ds, e, w')"
    then show "confined (Target opt) w0 (snd (rep, w'))"
      using confined_ReadDir confined_trans by fastforce
  next
    fix rep w i w'
    assume "confined (Target opt) w0 (snd (rep, w))" "os_Lstat (Source opt) w = (i, w')"
    then show "confined (Target opt) w0 (snd (rep, w'))"
      using confined_Lstat confined_trans by fastforce
  qed
  with e show ?thesis by simp
qed

lemma WalkDir_delete_confined:
  assumes "confined (Target opt) w0 (snd s)"
  shows "confined (Target opt) w0 (snd (snd (WalkDir (Target opt) (delete_pass opt) s)))"
proof -
  obtain r s' where e: "WalkDir (Target opt) (delete_pass opt) s = (r, s')"
    by (cases "WalkDir (Target opt) (delete_pass opt) s")
  have "confined (Target opt) w0 (snd s')"
  proof (rule WalkDir_inv[where I = "\<lambda>s. confined (Target opt) w0 (snd s)", OF _ _ _ assms e])
    fix p d x s r s'
    assume "prefix (Target opt) p" "confined (Target opt) w0 (snd s)" "delete_pass opt p d x s = (r, s')"
    then show "confined (Target opt) w0 (snd s')"
      using confined_delete[of opt p "snd s" d x "fst s"] confined_trans by fastforce
  next
    fix p rep w ds e w'
    assume "confined (Target opt) w0 (snd (rep, w))" "os_ReadDir p w = (ds, e, w')"
    then show "confined (Target opt) w0 (snd (rep, w'))"
      using confined_ReadDir confined_trans by fastforce
  next
    fix rep w i w'
    assume "confined (Target opt) w0 (snd (rep, w))" "os_Lstat (Target opt) w = (i, w')"
    then show "confined (Target opt) w0 (snd (rep, w'))"
      using confined_Lstat confined_trans by fastforce
  qed
  with e show ?thesis by simp
qed

lemma Sync_confined: "confined (Target opt) w (snd (Sync opt w))"
proof -
  let ?s1 = "snd (WalkDir (Source opt) (forward opt) (empty_report, w))"
  have 1: "confined (Target opt) w (snd ?s1)"
    using WalkDir_forward_confined[of opt w "(empty_report, w)"] by simp
  have 2: "confined (Target opt) w (snd (snd (WalkDir (Target opt) (delete_pass opt) ?s1)))"
    by (rule WalkDir_delete_confined[OF 1])
  show ?thesis using 1 2 by (auto simp: Sync_eq Let_def split: prod.splits)
qed

section \<open>The atomic file writer on failure\<close>

lemma copyFile_staged:
  assumes "os_MkdirAll (butlast dstPath) w = (None, w1)"
    and "os_Open srcPath w1 = (None, w2)"
    and "os_OpenFile (tmp_path dstPath) (Perm srcInfo) w2 = (None, w3)"
    and "io_Copy (tmp_path dstPath) srcPath w3 = (cErr, w4)"
    and "file_Close (tmp_path dstPath) w4 = (cCloseErr, w5)"
    and "os_Chtimes (tmp_path dstPath) (ModTime srcInfo) w5 = (tErr, w6)"
    and "os_Rename (tmp_path dstPath) dstPath w6 = (rErr, w7)"
  shows "copyFile srcPath dstPath srcInfo w =
     (case cErr of
        Some e \<Rightarrow> (Some (Wrapped ''copy'' e), snd (file_Close srcPath (snd (os_Remove (tmp_path dstPath) w5))))
      | None \<Rightarrow>
     (case cCloseErr of
        Some e \<Rightarrow> (Some (Wrapped ''close tmp'' e), snd (file_Close srcPath (snd (os_Remove (tmp_path dstPath) w5))))
      | None \<Rightarrow>
     (case tErr of
        Some e \<Rightarrow> (Some (Wrapped ''chtimes'' e), snd (file_Close srcPath (snd (os_Remove (tmp_path dstPath) w6))))
      | None \<Rightarrow>
     (case rErr of
        Some e \<Rightarrow> (Some (Wrapped ''rename'' e), snd (file_Close srcPath (snd (os_Remove (tmp_path dstPath) w7))))
      | None \<Rightarrow> (None, snd (file_Close srcPath w7))))))"
  using assms unfolding copyFile_def Let_def
  by (simp split: option.splits)

lemma staged_dst_unchanged:
  assumes "os_MkdirAll (butlast dstPath) w = (None, w1)"
    and "os_Open srcPath w1 = (None, w2)"
    and "os_OpenFile (tmp_path dstPath) (Perm srcInfo) w2 = (None, w3)"
    and "io_Copy (tmp_path dstPath) srcPath w3 = (cErr, w4)"
    and "file_Close (tmp_path dstPath) w4 = (cCloseErr, w5)"
    and "os_Chtimes (tmp_path dstPath) (ModTime srcInfo) w5 = (tErr, w6)"
  shows "map_of (files w5) dstPath = map_of (files w) dstPath"
    and "map_of (files w6) dstPath = map_of (files w) dstPath"
    and "trace w5 = trace w @ [OpMkdirAll (butlast dstPath), OpOpen srcPath, OpOpenFile (tmp_path dstPath),
            OpCopy (tmp_path dstPath) srcPath, OpClose (tmp_path dstPath)]"
    and "trace w6 = trace w5 @ [OpChtimes (tmp_path dstPath)]"
proof -
  have d: "\<not> prefix dstPath (butlast dstPath) \<or> dstPath = []"
    using not_prefix_butlast by blast
  have t: "dstPath \<noteq> tmp_path dstPath" using tmp_path_neq[of dstPath] by metis
  note D = os_MkdirAll_D[OF assms(1)] os_Open_D[OF assms(2)] os_OpenFile_D[OF assms(3)]
    io_Copy_D[OF assms(4)] file_Close_D[OF assms(5)] os_Chtimes_D[OF assms(6)]
  show "map_of (files w5) dstPath = map_of (files w) dstPath" using D d t by simp
  then show "map_of (files w6) dstPath = map_of (files w) dstPath" using D t by simp
  show "trace w5 = trace w @ [OpMkdirAll (butlast dstPath), OpOpen srcPath, OpOpenFile (tmp_path dstPath),
            OpCopy (tmp_path dstPath) srcPath, OpClose (tmp_path dstPath)]" using D by simp
  show "trace w6 = trace w5 @ [OpChtimes (tmp_path dstPath)]" using D by simp
qed

text \<open>
  Claim C1. Take a call of \<open>copyFile\<close> in which the directory chain, the source and the
  temporary file were opened, and name the results of the streaming copy, of closing the
  temporary file, of setting the timestamp and of the rename. If the copy fails,
  \<open>copyFile\<close> returns that error wrapped as \<open>copy\<close>; if instead the close fails, it
  returns that error wrapped as \<open>close tmp\<close>; if instead setting the timestamp fails, it
  returns that error wrapped as \<open>chtimes\<close>; if instead the rename fails, it returns that
  error wrapped as \<open>rename\<close>. In each case its last two operations are the removal of
  the temporary file (whose own result is ignored) and the deferred close of the source,
  and the destination path holds what it held before the call, or is still absent.
\<close>

theorem copyFile_failure_keeps_destination:
  assumes "os_MkdirAll (butlast dstPath) w = (None, w1)"
    and "os_Open srcPath w1 = (None, w2)"
    and "os_OpenFile (tmp_path dstPath) (Perm srcInfo) w2 = (None, w3)"
    and "io_Copy (tmp_path dstPath) srcPath w3 = (cErr, w4)"
    and "file_Close (tmp_path dstPath) w4 = (cCloseErr, w5)"
    and "os_Chtimes (tmp_path dstPath) (ModTime srcInfo) w5 = (tErr, w6)"
    and "os_Rename (tmp_path dstPath) dstPath w6 = (rErr, w7)"
    and "copyFile srcPath dstPath srcInfo w = (res, w')"
  shows "(cErr = Some e \<longrightarrow>
            res = Some (Wrapped ''copy'' e) \<and>
            trace w' = trace w5 @ [OpRemove (tmp_path dstPath), OpClose srcPath]) \<and>
         (cErr = None \<and> cCloseErr = Some e \<longrightarrow>
            res = Some (Wrapped ''close tmp'' e) \<and>
            trace w' = trace w5 @ [OpRemove (tmp_path dstPath), OpClose srcPath]) \<and>
         (cErr = None \<and> cCloseErr = None \<and> tErr = Some e \<longrightarrow>
            res = Some (Wrapped ''chtimes'' e) \<and>
            trace w' = trace w6 @ [OpRemove (tmp_path dstPath), OpClose srcPath]) \<and>
         (cErr = None \<and> cCloseErr = None \<and> tErr = None \<and> rErr = Some e \<longrightarrow>
            res = Some (Wrapped ''rename'' e) \<and>
            trace w' = trace w7 @ [OpRemove (tmp_path dstPath), OpClose srcPath]) \<and>
         (cErr \<noteq> None \<or> cCloseErr \<noteq> None \<or> tErr \<noteq> None \<or> rErr \<noteq> None \<longrightarrow>
            res \<noteq> None \<and>
            OpRemove (tmp_path dstPath) \<in> set (drop (length (trace w)) (trace w')) \<and>
            map_of (files w') dstPath = map_of (files w) dstPath)"
proof -
  define cleanup where
    "cleanup = (\<lambda>v. snd (file_Close srcPath (snd (os_Remove (tmp_path dstPath) v))))"
  have t: "dstPath \<noteq> tmp_path dstPath" using tmp_path_neq[of dstPath] by metis
  note S = copyFile_staged[OF assms(1-7)]
  note U = staged_dst_unchanged[OF assms(1-6)]
  note R = os_Rename_D[OF assms(7)]
  have c1: "cErr = Some e \<Longrightarrow> res = Some (Wrapped ''copy'' e) \<and> w' = cleanup w5" for e
    using S assms(8) by (simp add: cleanup_def)
  have c2: "cErr = None \<Longrightarrow> cCloseErr = Some e \<Longrightarrow>
      res = Some (Wrapped ''close tmp'' e) \<and> w' = cleanup w5" for e
    using S assms(8) by (simp add: cleanup_def)
  have c3: "cErr = None \<Longrightarrow> cCloseErr = None \<Longrightarrow> tErr = Some e \<Longrightarrow>
      res = Some (Wrapped ''chtimes'' e) \<and> w' = cleanup w6" for e
    using S assms(8) by (simp add: cleanup_def)
  have c4: "cErr = None \<Longrightarrow> cCloseErr = None \<Longrightarrow> tErr = None \<Longrightarrow> rErr = Some e \<Longrightarrow>
      res = Some (Wrapped ''rename'' e) \<and> w' = cleanup w7" for e
    using S assms(8) by (simp add: cleanup_def)
  have tr: "trace (cleanup v) = trace v @ [OpRemove (tmp_path dstPath), OpClose srcPath]" for v
    by (simp add: cleanup_def os_Remove_snd)
  have fr: "map_of (files (cleanup v)) dstPath = map_of (files v) dstPath" for v
    using t by (simp add: cleanup_def os_Remove_snd)
  have w7: "rErr \<noteq> None \<Longrightarrow> files w7 = files w6" "trace w7 = trace w6 @ [OpRename (tmp_path dstPath) dstPath]"
    using R by simp_all
  have last: "cErr \<noteq> None \<or> cCloseErr \<noteq> None \<or> tErr \<noteq> None \<or> rErr \<noteq> None \<Longrightarrow>
            res \<noteq> None \<and>
            OpRemove (tmp_path dstPath) \<in> set (drop (length (trace w)) (trace w')) \<and>
            map_of (files w') dstPath = map_of (files w) dstPath"
  proof -
    assume a: "cErr \<noteq> None \<or> cCloseErr \<noteq> None \<or> tErr \<noteq> None \<or> rErr \<noteq> None"
    consider (1) x where "cErr = Some x"
      | (2) x where "cErr = None" "cCloseErr = Some x"
      | (3) x where "cErr = None" "cCloseErr = None" "tErr = Some x"
      | (4) x where "cErr = None" "cCloseErr = None" "tErr = None" "rErr = Some x"
      using a by (cases cErr; cases cCloseErr; cases tErr; cases rErr) auto
    then show ?thesis
    proof cases
      case 1
      with c1[OF 1] tr[of w5] fr[of w5] U show ?thesis by simp
    next
      case 2
      with c2[OF 2] tr[of w5] fr[of w5] U show ?thesis by simp
    next
      case 3
      with c3[OF 3] tr[of w6] fr[of w6] U show ?thesis by simp
    next
      case 4
      with c4[OF 4] tr[of w7] fr[of w7] U w7 show ?thesis by simp
    qed
  qed
  show ?thesis using c1 c2 c3 c4 tr last by (intro conjI impI) simp_all
qed


theorem copyFile_failure_keeps_destination_witness:
  "fst (copyFile [''s'', ''a''] [''t'', ''a''] ex_info
          (mk_world ex_overwrite [None, None, None, Some (EIO, 2)]))
     = Some (Wrapped ''copy'' (PathError ''write'' [''t'', ''a.tmp~''] EIO)) \<and>
   OpRemove [''t'', ''a.tmp~''] \<in> set (trace (snd (copyFile [''s'', ''a''] [''t'', ''a''] ex_info
          (mk_world ex_overwrite [None, None, None, Some (EIO, 2)])))) \<and>
   map_of (files (snd (copyFile [''s'', ''a''] [''t'', ''a''] ex_info
          (mk_world ex_overwrite [None, None, None, Some (EIO, 2)])))) [''t'', ''a'']
     = Some (file_node ''old'' 1000000000)"
proof -
  let ?src = "[''s'', ''a'']" and ?dst = "[''t'', ''a'']"
  let ?e = "PathError ''write'' [''t'', ''a.tmp~''] EIO"
  let ?w = "mk_world ex_overwrite [None, None, None, Some (EIO, 2)]"
  let ?w1 = "snd (os_MkdirAll (butlast ?dst) ?w)"
  let ?w2 = "snd (os_Open ?src ?w1)"
  let ?w3 = "snd (os_OpenFile (tmp_path ?dst) (Perm ex_info) ?w2)"
  let ?w4 = "snd (io_Copy (tmp_path ?dst) ?src ?w3)"
  let ?c5 = "file_Close (tmp_path ?dst) ?w4"
  let ?c6 = "os_Chtimes (tmp_path ?dst) (ModTime ex_info) (snd ?c5)"
  let ?c7 = "os_Rename (tmp_path ?dst) ?dst (snd ?c6)"
  let ?r = "copyFile ?src ?dst ex_info ?w"
  have "fst (os_MkdirAll (butlast ?dst) ?w) = None" by code_simp
  then have h1: "os_MkdirAll (butlast ?dst) ?w = (None, ?w1)" by (metis prod.collapse)
  have "fst (os_Open ?src ?w1) = None" by code_simp
  then have h2: "os_Open ?src ?w1 = (None, ?w2)" by (metis prod.collapse)
  have "fst (os_OpenFile (tmp_path ?dst) (Perm ex_info) ?w2) = None" by code_simp
  then have h3: "os_OpenFile (tmp_path ?dst) (Perm ex_info) ?w2 = (None, ?w3)" by (metis prod.collapse)
  have "fst (io_Copy (tmp_path ?dst) ?src ?w3) = Some ?e" by code_simp
  then have h4: "io_Copy (tmp_path ?dst) ?src ?w3 = (Some ?e, ?w4)" by (metis prod.collapse)
  have h5: "?c5 = (fst ?c5, snd ?c5)" and h6: "?c6 = (fst ?c6, snd ?c6)"
    and h7: "?c7 = (fst ?c7, snd ?c7)" and h8: "?r = (fst ?r, snd ?r)"
    by simp_all
  have t: "tmp_path ?dst = [''t'', ''a.tmp~'']" by code_simp
  have c: "map_of (files ?w) ?dst = Some (file_node ''old'' 1000000000)" by code_simp
  from copyFile_failure_keeps_destination[OF h1 h2 h3 h4 h5 h6 h7 h8, of ?e] t c
  show ?thesis by (auto dest: in_set_dropD)
qed

section \<open>The change detector\<close>

lemma truncateToSeconds_floor:
  "truncateToSeconds t = (t div 1000000000) * 1000000000"
  unfolding truncateToSeconds_def by (simp add: minus_mod_eq_div_mult)

lemma truncateToSeconds_eq_iff:
  "truncateToSeconds a = truncateToSeconds b \<longleftrightarrow> a div 1000000000 = b div 1000000000"
  by (simp add: truncateToSeconds_floor)

text \<open>
  Claim C2. \<open>differ\<close> answers true whenever the sizes differ; for equal sizes it answers
  false exactly when the two modification times, truncated to whole seconds, are equal
  (that is, when they lie in the same second), and true otherwise.
\<close>

theorem differ_size_then_truncated_mtime:
  "(Size S \<noteq> Size D \<longrightarrow> differ S D) \<and>
   (Size S = Size D \<longrightarrow>
      (\<not> differ S D \<longleftrightarrow> truncateToSeconds (ModTime S) = truncateToSeconds (ModTime D)) \<and>
      (differ S D \<longleftrightarrow> ModTime S div 1000000000 \<noteq> ModTime D div 1000000000))"
  by (simp add: differ_def truncateToSeconds_eq_iff)

theorem differ_size_then_truncated_mtime_witness:
  "differ \<lparr>Size = 2, ModTime = 5000000000, Mode = Regular, Perm = 420\<rparr>
          \<lparr>Size = 3, ModTime = 5000000000, Mode = Regular, Perm = 420\<rparr> \<and>
   \<not> differ \<lparr>Size = 2, ModTime = 5000000001, Mode = Regular, Perm = 420\<rparr>
            \<lparr>Size = 2, ModTime = 5999999999, Mode = Regular, Perm = 420\<rparr> \<and>
   differ \<lparr>Size = 2, ModTime = 5999999999, Mode = Regular, Perm = 420\<rparr>
          \<lparr>Size = 2, ModTime = 6000000000, Mode = Regular, Perm = 420\<rparr>"
  using differ_size_then_truncated_mtime
          [of "\<lparr>Size = 2, ModTime = 5000000000, Mode = Regular, Perm = 420\<rparr>"
              "\<lparr>Size = 3, ModTime = 5000000000, Mode = Regular, Perm = 420\<rparr>"]
        differ_size_then_truncated_mtime
          [of "\<lparr>Size = 2, ModTime = 5000000001, Mode = Regular, Perm = 420\<rparr>"
              "\<lparr>Size = 2, ModTime = 5999999999, Mode = Regular, Perm = 420\<rparr>"]
        differ_size_then_truncated_mtime
          [of "\<lparr>Size = 2, ModTime = 5999999999, Mode = Regular, Perm = 420\<rparr>"
              "\<lparr>Size = 2, ModTime = 6000000000, Mode = Regular, Perm = 420\<rparr>"]
  by simp

section \<open>The temporary path\<close>

text \<open>
  Claim C8, against the claim. With the source files \<open>s/a\<close> and \<open>s/a.tmp~\<close> one run
  mirrors both, and the temporary file opened while writing \<open>t/a\<close> is \<open>t/a.tmp~\<close>, the
  destination of the other file.
\<close>

theorem tmp_path_collides_counterexample:
  "(case Sync (ex_opts False) (mk_world ex_pair []) of (r, w) \<Rightarrow>
      (r, logs w, OpOpenFile (tmp_path [''t'', ''a'']) \<in> set (trace w), tmp_path [''t'', ''a'']))
   = (Some \<lparr>Copied = 2, Overwritten = 0, Deleted = 0, Skipped = 0, Errors = []\<rparr>,
      [LogCopy [''s'', ''a''] [''t'', ''a''], LogCopy [''s'', ''a.tmp~''] [''t'', ''a.tmp~'']],
      True, [''t'', ''a.tmp~''])"
  by code_simp

text \<open>
  Claim C8, amended. The temporary path of a destination is the destination with
  \<open>.tmp~\<close> appended to its last component: it lies in the same directory, differs from
  its own destination, and equals another destination exactly when that one is in the
  same directory and is named as this one with \<open>.tmp~\<close> appended.
\<close>

theorem tmp_path_sibling_with_suffix:
  assumes "dst \<noteq> []"
  shows "butlast (tmp_path dst) = butlast dst \<and> last (tmp_path dst) = last dst @ ''.tmp~'' \<and>
         tmp_path dst \<noteq> dst \<and>
         (\<forall>other. tmp_path dst = other \<longleftrightarrow>
            other \<noteq> [] \<and> butlast other = butlast dst \<and> last other = last dst @ ''.tmp~'')"
proof -
  have e: "tmp_path dst = butlast dst @ [last dst @ ''.tmp~'']"
    using assms by (simp add: tmp_path_snoc tmp_suffix_def)
  have "\<And>other. (butlast dst @ [last dst @ ''.tmp~''] = other) =
          (other \<noteq> [] \<and> butlast other = butlast dst \<and> last other = last dst @ ''.tmp~'')"
    by (metis append_butlast_last_id butlast_snoc last_snoc snoc_eq_iff_butlast)
  with e tmp_path_neq[of dst] show ?thesis by simp
qed

theorem tmp_path_sibling_with_suffix_witness:
  "[''t'', ''a''] \<noteq> [] \<and> butlast (tmp_path [''t'', ''a'']) = [''t''] \<and>
   last (tmp_path [''t'', ''a'']) = ''a.tmp~'' \<and> tmp_path [''t'', ''a''] \<noteq> [''t'', ''b'']"
  using tmp_path_sibling_with_suffix[of "[''t'', ''a'']"] by simp

section \<open>Target-only files without delete-missing\<close>

text \<open>
  Claim C6, at the failing input. The source holds \<open>s/a\<close>, the target holds only
  \<open>t/a.tmp~\<close>, and delete-missing is off. The run reports one copy, no deletion and no
  error, and afterwards \<open>t/a.tmp~\<close>, a file present only in the target, is gone: it was
  opened and truncated as the temporary file of \<open>t/a\<close> and renamed away.
\<close>

theorem target_only_file_lost_without_delete:
  "(case Sync (ex_opts False) (mk_world ex_clobber []) of (r, w) \<Rightarrow>
      (r, map_of (files w) [''t'', ''a.tmp~''], map_of (files w) [''t'', ''a'']))
   = (Some \<lparr>Copied = 1, Overwritten = 0, Deleted = 0, Skipped = 0, Errors = []\<rparr>,
      None, Some (file_node ''new'' 5000000000))"
  by code_simp

section \<open>The report accumulator\<close>

text \<open>
  Claim C9. \<open>addErr\<close> leaves the report as it is when the error is nil, and otherwise
  appends the error after the errors already recorded. No operation of the engine takes
  anything back: across \<open>addErr\<close>, a call of either walk function, a whole traversal, and
  the delete pass that follows the forward pass in \<open>Sync\<close>, no counter goes down and the
  errors recorded before are a prefix of the errors recorded after.
\<close>

theorem report_append_only:
  "addErr None r = r \<and>
   addErr (Some e) r = r\<lparr>Errors := Errors r @ [e]\<rparr> \<and>
   report_le r (addErr x r) \<and>
   report_le r (fst (snd (forward opt p d x (r, w)))) \<and>
   report_le r (fst (snd (delete_pass opt p d x (r, w)))) \<and>
   report_le r (fst (snd (WalkDir root (forward opt) (r, w)))) \<and>
   report_le r (fst (snd (WalkDir root (delete_pass opt) (r, w)))) \<and>
   (case fst (Sync opt w) of
      None \<Rightarrow> False
    | Some rep \<Rightarrow>
        report_le (fst (snd (WalkDir (Source opt) (forward opt) (empty_report, w)))) rep)"
proof -
  have a: "addErr None r = r" "addErr (Some e) r = r\<lparr>Errors := Errors r @ [e]\<rparr>"
    by (simp_all add: addErr_def)
  have s: "case fst (Sync opt w) of
      None \<Rightarrow> False
    | Some rep \<Rightarrow>
        report_le (fst (snd (WalkDir (Source opt) (forward opt) (empty_report, w)))) rep"
    using WalkDir_delete_mono[of "fst (snd (WalkDir (Source opt) (forward opt) (empty_report, w)))"
        "Target opt" opt "snd (snd (WalkDir (Source opt) (forward opt) (empty_report, w)))"]
    by (auto simp: Sync_eq Let_def split: prod.splits)
  show ?thesis
    using a s report_le_addErr[of r x] forward_mono[of r opt p d x w] delete_pass_mono[of r opt p d x w]
      WalkDir_forward_mono[of r root opt w] WalkDir_delete_mono[of r root opt w]
    by blast
qed

section \<open>One outcome per visited file\<close>



section \<open>Failures are recorded, the run returns\<close>



section \<open>What the engine writes\<close>

text \<open>
  Claim C10, against the claim. The source root \<open>t/s\<close> lies under the target root \<open>t\<close>.
  The source file \<open>t/s/s/x\<close> is mirrored to \<open>t/s/x\<close>, which is itself a file of the source
  tree: the run renames its temporary file onto it and replaces its content.
\<close>

theorem source_file_overwritten_counterexample:
  "prefix (Source ex_nested_opts) [''t'', ''s'', ''x''] \<and>
   map_of (files (mk_world ex_nested [])) [''t'', ''s'', ''x''] = Some (file_node ''outer!'' 1000000000) \<and>
   map_of (files (snd (Sync ex_nested_opts (mk_world ex_nested [])))) [''t'', ''s'', ''x'']
     = Some (file_node ''inner'' 5000000000) \<and>
   OpRename [''t'', ''s'', ''x.tmp~''] [''t'', ''s'', ''x'']
     \<in> set (trace (snd (Sync ex_nested_opts (mk_world ex_nested []))))"
  by code_simp

text \<open>
  Claim C10, amended. Every operation of a run that writes (directory creation,
  opening and filling the temporary file, setting its time, rename, removal) is given
  paths under the target root only. Outside the target root the run changes nothing,
  except that a missing ancestor of the target root may come into being as a directory.
  When neither root lies under the other, every path under the source root holds after
  the run what it held before.
\<close>

theorem engine_writes_only_under_target:
  assumes "Sync opt w = (res, w')"
  shows "(\<forall>a \<in> set (drop (length (trace w)) (trace w')). \<forall>q \<in> set (writes a). prefix (Target opt) q) \<and>
         (\<forall>q. \<not> prefix (Target opt) q \<longrightarrow>
            map_of (files w') q = map_of (files w) q \<or>
            (strict_prefix q (Target opt) \<and> map_of (files w) q = None \<and> is_dir_at (files w') q)) \<and>
         (\<not> prefix (Target opt) (Source opt) \<and> \<not> prefix (Source opt) (Target opt) \<longrightarrow>
            (\<forall>q. prefix (Source opt) q \<longrightarrow> map_of (files w') q = map_of (files w) q))"
proof -
  have c: "confined (Target opt) w w'" using Sync_confined[of opt w] assms by simp
  then obtain new where n: "trace w' = trace w @ new" "under (Target opt) new"
    by (auto simp: confined_def)
  have 1: "\<forall>a \<in> set (drop (length (trace w)) (trace w')). \<forall>q \<in> set (writes a). prefix (Target opt) q"
    using n by (simp add: under_def)
  have 2: "\<forall>q. \<not> prefix (Target opt) q \<longrightarrow>
            map_of (files w') q = map_of (files w) q \<or>
            (strict_prefix q (Target opt) \<and> map_of (files w) q = None \<and> is_dir_at (files w') q)"
    using c unfolding confined_def by blast
  have 3: "map_of (files w') q = map_of (files w) q"
    if d: "\<not> prefix (Target opt) (Source opt)" "\<not> prefix (Source opt) (Target opt)"
      and q: "prefix (Source opt) q" for q
  proof -
    have a: "\<not> prefix (Target opt) q"
      using d q by (metis prefix_same_cases)
    have b: "\<not> strict_prefix q (Target opt)"
      using d q by (metis prefix_order.dual_order.trans strict_prefix_def prefix_order.less_imp_le)
    from 2 a b show ?thesis by blast
  qed
  show ?thesis using 1 2 3 by blast
qed

theorem engine_writes_only_under_target_witness:
  "\<not> prefix (Target (ex_opts True)) (Source (ex_opts True)) \<and>
   \<not> prefix (Source (ex_opts True)) (Target (ex_opts True)) \<and>
   prefix (Source (ex_opts True)) [''s'', ''a''] \<and>
   map_of (files (snd (Sync (ex_opts True) (mk_world ex_clobber [])))) [''s'', ''a'']
     = Some (file_node ''new'' 5000000000)"
proof -
  let ?o = "ex_opts True" and ?w = "mk_world ex_clobber []"
  have a: "\<not> prefix (Target ?o) (Source ?o)" "\<not> prefix (Source ?o) (Target ?o)"
    "prefix (Source ?o) [''s'', ''a'']"
    by (simp_all add: ex_opts_def)
  have b: "map_of (files ?w) [''s'', ''a''] = Some (file_node ''new'' 5000000000)" by code_simp
  have "\<not> prefix (Target ?o) (Source ?o) \<and> \<not> prefix (Source ?o) (Target ?o) \<longrightarrow>
            (\<forall>q. prefix (Source ?o) q \<longrightarrow> map_of (files (snd (Sync ?o ?w))) q = map_of (files ?w) q)"
    using engine_writes_only_under_target[of ?o ?w "fst (Sync ?o ?w)" "snd (Sync ?o ?w)",
        THEN conjunct2, THEN conjunct2] by simp
  with a b show ?thesis by simp
qed

end
